theory Spec2Isabelle
  imports Main
begin

section \<open>Go values used by main.go\<close>

text \<open>A pointer is either nil (\<open>None\<close>) or points to a value. Accounts are never
  mutated after they are built, so a pointer is modelled by the value it points to.\<close>

type_synonym 'a ptr = "'a option"

text \<open>An \<open>error\<close> value. \<open>Trace\<close> is the wrapper that \<open>errors.Trace\<close> of juju/errors
  puts around a non-nil error; it keeps the message of the error it wraps.\<close>

datatype error = Error string | Trace error

fun error_message :: "error \<Rightarrow> string" where
  "error_message (Error m) = m"
| "error_message (Trace e) = error_message e"

text \<open>How a call ends: it returns, the process exits through \<open>log.Fatal\<close>, or it panics.\<close>

datatype 'a outcome = Returns 'a | Fatal string | Panics string

text \<open>A Go map is nil or a table; reading and ranging treat a nil map as empty.\<close>

datatype ('k, 'v) gomap = NilMap | GoMap "'k \<rightharpoonup> 'v"

fun entries :: "('k, 'v) gomap \<Rightarrow> ('k \<rightharpoonup> 'v)" where
  "entries NilMap = Map.empty"
| "entries (GoMap m) = m"

text \<open>\<open>m[k]\<close> for a map of pointers: the zero value nil when the key is missing.\<close>

definition index :: "('k, 'v ptr) gomap \<Rightarrow> 'k \<Rightarrow> 'v ptr" where
  "index m k = (case entries m k of None \<Rightarrow> None | Some p \<Rightarrow> p)"

text \<open>A value of type \<open>interface{}\<close>: nil, a string, a map from strings to such values,
  or any other payload.\<close>

datatype 'p iface = INil | IString string | IVal 'p | IMap "string \<Rightarrow> 'p iface option"

section \<open>Data model\<close>

record AccountKey =
  Name :: string
  APIKey :: string
  SecretKey :: string

text \<open>The client of go-binance, as far as main.go touches it.\<close>

record Client =
  APIKey :: string
  SecretKey :: string
  Debug :: bool

definition NewClient :: "string \<Rightarrow> string \<Rightarrow> Client" where
  "NewClient apiKey secretKey =
     \<lparr>APIKey = apiKey, SecretKey = secretKey, Debug = False\<rparr>"

text \<open>Modelled from the spec: the struct \<open>Account\<close> is declared outside main.go; main.go
  assigns its fields \<open>Client\<close> and \<open>Name\<close>, and the spec gives it a name and a session.\<close>

record Account =
  Client :: Client
  Name :: string

type_synonym accountMap = "(string, Account ptr) gomap"

text \<open>The strategy held by the package variable \<open>findAccounts\<close>: nil before \<open>init\<close>,
  \<open>findAccountsImpl\<close>, or the closure that \<open>runOnce\<close> installs.\<close>

datatype finder = NoFinder | FindAccountsImpl | FindAccountsOnce

text \<open>The package variables of main.go, the lines written to standard output by \<open>print\<close>,
  and the world that the operations and finalizers act on. The operations are the handlers
  of the commands, which live outside main.go: they are given an account, may do anything
  to the world (the exchange, the network), and leave the package variables alone; an
  assignment to a package variable by code outside main.go is a step of its own in the
  rest of the process, below.\<close>

record 'w state =
  name :: string
  keyfile :: string
  debug :: bool
  accounts :: accountMap
  findAccounts :: finder
  stdout :: "string list"
  world :: 'w

text \<open>What main.go takes from outside: the file system, encoding/json, and the order in
  which the runtime yields the keys of a map in a \<open>range\<close> loop.\<close>

record 'p env =
  readFile :: "string \<Rightarrow> error + string"
  unmarshalKeys :: "string \<Rightarrow> error + AccountKey list"
  marshalIndent :: "'p iface \<Rightarrow> error + string"
  rangeOrder :: "(string \<rightharpoonup> Account ptr) \<Rightarrow> string list"

definition range_ok :: "'p env \<Rightarrow> (string \<rightharpoonup> Account ptr) \<Rightarrow> bool" where
  "range_ok env m \<longleftrightarrow> distinct (rangeOrder env m) \<and> set (rangeOrder env m) = dom m"

type_synonym 'p results = "string \<rightharpoonup> 'p iface"

type_synonym ('w, 'p) action = "Account ptr \<Rightarrow> 'w \<Rightarrow> ('p iface \<times> error option) outcome \<times> 'w"

type_synonym ('w, 'p) postAction =
  "'p results \<Rightarrow> 'w \<Rightarrow> ('p iface \<times> error option) outcome \<times> 'w"

section \<open>Credential store and account registry\<close>

definition loadKeys :: "'p env \<Rightarrow> string \<Rightarrow> error + AccountKey list" where
  "loadKeys env filePath =
     (case readFile env filePath of
        Inl err \<Rightarrow> Inl (Trace err)
      | Inr keyBytes \<Rightarrow>
          (case unmarshalKeys env keyBytes of
             Inl err \<Rightarrow> Inl (Trace err)
           | Inr keys \<Rightarrow> Inr keys))"

text \<open>The body of the loop of \<open>initAccounts\<close> up to the store into the map.\<close>

definition newAccount :: "bool \<Rightarrow> AccountKey \<Rightarrow> Account" where
  "newAccount dbg key =
     (let client = NewClient (AccountKey.APIKey key) (AccountKey.SecretKey key);
          client = (if dbg then client\<lparr>Debug := True\<rparr> else client)
      in \<lparr>Client = client, Name = AccountKey.Name key\<rparr>)"

fun initAccounts_loop ::
  "bool \<Rightarrow> AccountKey list \<Rightarrow> (string \<rightharpoonup> Account ptr) \<Rightarrow> (string \<rightharpoonup> Account ptr)" where
  "initAccounts_loop dbg [] m = m"
| "initAccounts_loop dbg (key # keys) m =
     (let account = newAccount dbg key
      in initAccounts_loop dbg keys (m(Account.Name account \<mapsto> Some account)))"

definition initAccounts :: "'p env \<Rightarrow> 'w state \<Rightarrow> unit outcome \<times> 'w state" where
  "initAccounts env s =
     (let s1 = (if keyfile s = '''' then s\<lparr>keyfile := ''keys.json''\<rparr> else s)
      in case loadKeys env (keyfile s1) of
           Inl err \<Rightarrow> (Fatal (''failed to load keys: '' @ error_message err), s1)
         | Inr keys \<Rightarrow>
             (Returns (),
              s1\<lparr>accounts := GoMap (initAccounts_loop (debug s1) keys Map.empty)\<rparr>))"

section \<open>Account selector\<close>

definition findAccountsImpl ::
  "'p env \<Rightarrow> 'w state \<Rightarrow> string \<Rightarrow> accountMap outcome \<times> 'w state" where
  "findAccountsImpl env s nm =
     (case initAccounts env s of
        (Fatal m, s1) \<Rightarrow> (Fatal m, s1)
      | (Panics m, s1) \<Rightarrow> (Panics m, s1)
      | (Returns u, s1) \<Rightarrow>
          (if nm = '''' then (Returns (accounts s1), s1)
           else (Returns (GoMap [nm \<mapsto> index (accounts s1) nm]), s1)))"

text \<open>The closure assigned to \<open>findAccounts\<close> in \<open>runOnce\<close>.\<close>

definition findAccountsOnce ::
  "'p env \<Rightarrow> 'w state \<Rightarrow> string \<Rightarrow> accountMap outcome \<times> 'w state" where
  "findAccountsOnce env s nm =
     (case initAccounts env s of
        (Fatal m, s1) \<Rightarrow> (Fatal m, s1)
      | (Panics m, s1) \<Rightarrow> (Panics m, s1)
      | (Returns u, s1) \<Rightarrow>
          (case rangeOrder env (entries (accounts s1)) of
             k # ks \<Rightarrow> (Returns (GoMap [k \<mapsto> index (accounts s1) k]), s1)
           | [] \<Rightarrow> (Returns NilMap, s1)))"

text \<open>Calling the function held by \<open>findAccounts\<close>; calling a nil function panics.\<close>

definition callFindAccounts ::
  "'p env \<Rightarrow> 'w state \<Rightarrow> string \<Rightarrow> accountMap outcome \<times> 'w state" where
  "callFindAccounts env s nm =
     (case findAccounts s of
        NoFinder \<Rightarrow> (Panics ''nil pointer dereference'', s)
      | FindAccountsImpl \<Rightarrow> findAccountsImpl env s nm
      | FindAccountsOnce \<Rightarrow> findAccountsOnce env s nm)"

definition init :: "'w state \<Rightarrow> 'w state" where
  "init s = s\<lparr>findAccounts := FindAccountsImpl\<rparr>"

section \<open>Fan-out executor\<close>

text \<open>\<open>account.Name\<close> on a pointer: a nil pointer panics.\<close>

definition derefName :: "Account ptr \<Rightarrow> string outcome" where
  "derefName account =
     (case account of
        None \<Rightarrow> Panics ''nil pointer dereference''
      | Some a \<Rightarrow> Returns (Account.Name a))"

definition print :: "'p env \<Rightarrow> 'p iface \<Rightarrow> 'w state \<Rightarrow> error option outcome \<times> 'w state" where
  "print env ret s =
     (case marshalIndent env ret of
        Inl err \<Rightarrow> (Returns (Some (Trace err)), s)
      | Inr out \<Rightarrow> (Returns None, s\<lparr>stdout := stdout s @ [out]\<rparr>))"

text \<open>The \<open>range\<close> loop of \<open>accountsDo\<close> over the keys in the order the runtime yields them.\<close>

fun accountsDo_loop ::
  "('w, 'p) action \<Rightarrow> string list \<Rightarrow> accountMap \<Rightarrow> 'p results \<Rightarrow> 'w \<Rightarrow>
     'p results outcome \<times> 'w" where
  "accountsDo_loop action [] accts results w = (Returns results, w)"
| "accountsDo_loop action (k # ks) accts results w =
     (let account = index accts k
      in case action account w of
           (Fatal m, w1) \<Rightarrow> (Fatal m, w1)
         | (Panics m, w1) \<Rightarrow> (Panics m, w1)
         | (Returns (res, Some err), w1) \<Rightarrow>
             (case derefName account of
                Fatal m \<Rightarrow> (Fatal m, w1)
              | Panics m \<Rightarrow> (Panics m, w1)
              | Returns n \<Rightarrow>
                  accountsDo_loop action ks accts
                    (results(n \<mapsto> IString (''error: '' @ error_message err))) w1)
         | (Returns (res, None), w1) \<Rightarrow>
             (case derefName account of
                Fatal m \<Rightarrow> (Fatal m, w1)
              | Panics m \<Rightarrow> (Panics m, w1)
              | Returns n \<Rightarrow> accountsDo_loop action ks accts (results(n \<mapsto> res)) w1))"

definition accountsDo ::
  "'p env \<Rightarrow> ('w, 'p) action \<Rightarrow> ('w, 'p) postAction list \<Rightarrow> 'w state \<Rightarrow>
     error option outcome \<times> 'w state" where
  "accountsDo env action postAction s =
     (case callFindAccounts env s (name s) of
        (Fatal m, s1) \<Rightarrow> (Fatal m, s1)
      | (Panics m, s1) \<Rightarrow> (Panics m, s1)
      | (Returns accts, s1) \<Rightarrow>
          (case accountsDo_loop action (rangeOrder env (entries accts)) accts Map.empty (world s1) of
             (Fatal m, w) \<Rightarrow> (Fatal m, s1\<lparr>world := w\<rparr>)
           | (Panics m, w) \<Rightarrow> (Panics m, s1\<lparr>world := w\<rparr>)
           | (Returns results, w) \<Rightarrow>
               (case postAction of
                  pa # rest \<Rightarrow>
                    (case pa results w of
                       (Fatal m, w') \<Rightarrow> (Fatal m, s1\<lparr>world := w'\<rparr>)
                     | (Panics m, w') \<Rightarrow> (Panics m, s1\<lparr>world := w'\<rparr>)
                     | (Returns (ret, Some err), w') \<Rightarrow>
                         (Returns (Some (Trace err)), s1\<lparr>world := w'\<rparr>)
                     | (Returns (ret, None), w') \<Rightarrow> print env ret (s1\<lparr>world := w'\<rparr>))
                | [] \<Rightarrow> print env (IMap results) (s1\<lparr>world := w\<rparr>))))"

definition runOnce ::
  "'p env \<Rightarrow> ('w, 'p) action \<Rightarrow> ('w, 'p) postAction list \<Rightarrow> 'w state \<Rightarrow>
     error option outcome \<times> 'w state" where
  "runOnce env action postAction s =
     accountsDo env action postAction (s\<lparr>findAccounts := FindAccountsOnce\<rparr>)"

text \<open>The end of \<open>main\<close>, for a command whose handler returns what the executor returns
  and that \<open>app.Run\<close> hands back: nil lets the process end with status 0, an error goes to
  \<open>log.Fatal\<close> (status 1, as every \<open>log.Fatal\<close>), and a panic that nobody recovers ends
  the process with status 2.\<close>

fun exitStatus :: "error option outcome \<Rightarrow> nat" where
  "exitStatus (Returns None) = 0"
| "exitStatus (Returns (Some err)) = 1"
| "exitStatus (Fatal m) = 1"
| "exitStatus (Panics m) = 2"

section \<open>The world after the operations\<close>

text \<open>The world once the operation has run on the accounts under the keys \<open>ks\<close>, one
  after the other, whatever each of the calls gave back.\<close>

definition worldAfter :: "('w, 'p) action \<Rightarrow> accountMap \<Rightarrow> string list \<Rightarrow> 'w \<Rightarrow> 'w" where
  "worldAfter action accts ks w = foldl (\<lambda>w k. snd (action (index accts k) w)) w ks"

section \<open>The rest of the process\<close>

text \<open>What the process may run after a call of the executor: a further call, entered
  through \<open>runOnce\<close> (flag set) or directly through \<open>accountsDo\<close>, with its own
  surroundings, operation and finalizers; or any other code acting on the package
  variables, be it code between the calls or what a handler did to them during a call.\<close>

datatype ('w, 'p) step =
  Call bool "'p env" "('w, 'p) action" "('w, 'p) postAction list"
| Other "'w state \<Rightarrow> 'w state"

fun laterSteps :: "('w, 'p) step list \<Rightarrow> 'w state \<Rightarrow> 'w state" where
  "laterSteps [] s = s"
| "laterSteps (Call once env action postAction # steps) s =
     laterSteps steps
       (snd (if once then runOnce env action postAction s
             else accountsDo env action postAction s))"
| "laterSteps (Other g # steps) s = laterSteps steps (g s)"

section \<open>Concrete inputs\<close>

definition keyA :: AccountKey where
  "keyA = \<lparr>AccountKey.Name = ''A'', AccountKey.APIKey = ''x'', AccountKey.SecretKey = ''y''\<rparr>"

definition keyB :: AccountKey where
  "keyB = \<lparr>AccountKey.Name = ''B'', AccountKey.APIKey = ''u'', AccountKey.SecretKey = ''v''\<rparr>"

definition keyA2 :: AccountKey where
  "keyA2 = \<lparr>AccountKey.Name = ''A'', AccountKey.APIKey = ''x2'', AccountKey.SecretKey = ''y2''\<rparr>"

text \<open>A rendering of values whose maps have keys among A and B.\<close>

definition demo_show :: "string iface \<Rightarrow> string" where
  "demo_show v =
     (case v of
        INil \<Rightarrow> ''null''
      | IString str \<Rightarrow> str
      | IVal p \<Rightarrow> p
      | IMap m \<Rightarrow>
          ''{'' @ concat (map (\<lambda>k. case m k of
                                     None \<Rightarrow> []
                                   | Some (IString str) \<Rightarrow> k @ '': '' @ str @ ''; ''
                                   | Some (IVal p) \<Rightarrow> k @ '': '' @ p @ ''; ''
                                   | Some other \<Rightarrow> k @ '': ?; '') [''A'', ''B'']) @ ''}'')"

text \<open>An environment with the given files, whose parser gives \<open>parsed\<close> for every content
  and whose runtime yields the keys of a map in the order A, B.\<close>

definition demo_env :: "(string \<rightharpoonup> string) \<Rightarrow> (error + AccountKey list) \<Rightarrow> string env" where
  "demo_env files parsed =
     \<lparr>readFile = (\<lambda>p. case files p of
                         None \<Rightarrow> Inl (Error ''no such file or directory'')
                       | Some content \<Rightarrow> Inr content),
      unmarshalKeys = (\<lambda>content. parsed),
      marshalIndent = (\<lambda>v. Inr (demo_show v)),
      rangeOrder = (\<lambda>m. filter (\<lambda>k. m k \<noteq> None) [''A'', ''B''])\<rparr>"

definition demo_files :: "string \<rightharpoonup> string" where
  "demo_files = [''keys.json'' \<mapsto> ''[]'']"

text \<open>A fresh process: no accounts yet, nothing printed, and a world that logs the calls
  of the operation.\<close>

definition demo_state :: "string \<Rightarrow> finder \<Rightarrow> (string list) state" where
  "demo_state nm f =
     \<lparr>name = nm, keyfile = [], debug = False, accounts = NilMap, findAccounts = f,
      stdout = [], world = []\<rparr>"

text \<open>An operation that fails on account A, succeeds on every other account, and returns
  an error on a nil account without touching it.\<close>

definition demo_action :: "(string list, string) action" where
  "demo_action account w =
     (case account of
        None \<Rightarrow> (Returns (INil, Some (Error ''no account'')), w @ [''nil''])
      | Some a \<Rightarrow>
          (if Account.Name a = ''A''
           then (Returns (INil, Some (Error ''auth'')), w @ [Account.Name a])
           else (Returns (IVal ''7.5'', None), w @ [Account.Name a])))"

text \<open>An operation that fails on every account.\<close>

definition demo_failing :: "(string list, string) action" where
  "demo_failing account w = (Returns (INil, Some (Error ''down'')), w @ [''call''])"

definition demo_final_ok :: "(string list, string) postAction" where
  "demo_final_ok results w = (Returns (IString ''total'', None), w)"

definition demo_final_err :: "(string list, string) postAction" where
  "demo_final_err results w = (Returns (INil, Some (Error ''bad totals'')), w)"


section \<open>The registry\<close>

lemma newAccount_Name: "Account.Name (newAccount dbg key) = AccountKey.Name key"
  by (simp add: newAccount_def Let_def)

lemma initAccounts_loop_append:
  "initAccounts_loop dbg (xs @ ys) m = initAccounts_loop dbg ys (initAccounts_loop dbg xs m)"
  by (induction xs arbitrary: m) (simp_all add: Let_def)

lemma initAccounts_loop_frame:
  "n \<notin> AccountKey.Name ` set keys \<Longrightarrow> initAccounts_loop dbg keys m n = m n"
  by (induction keys arbitrary: m) (simp_all add: Let_def newAccount_Name)

lemma initAccounts_loop_dom:
  "dom (initAccounts_loop dbg keys m) = dom m \<union> AccountKey.Name ` set keys"
  by (induction keys arbitrary: m) (auto simp: Let_def newAccount_Name)

lemma initAccounts_loop_last:
  assumes "keys = pre @ key # post" and "AccountKey.Name key \<notin> AccountKey.Name ` set post"
  shows "initAccounts_loop dbg keys m (AccountKey.Name key) = Some (Some (newAccount dbg key))"
proof -
  have "initAccounts_loop dbg keys m =
          initAccounts_loop dbg post
            ((initAccounts_loop dbg pre m)(AccountKey.Name key \<mapsto> Some (newAccount dbg key)))"
    using assms(1) by (simp add: initAccounts_loop_append Let_def newAccount_Name)
  then show ?thesis
    using assms(2) by (simp add: initAccounts_loop_frame)
qed

text \<open>Every entry of the registry is a non-nil account named as its key.\<close>

lemma initAccounts_loop_named:
  assumes "\<And>k p. m k = Some p \<Longrightarrow> \<exists>a. p = Some a \<and> Account.Name a = k"
    and "initAccounts_loop dbg keys m n = Some p"
  shows "\<exists>a. p = Some a \<and> Account.Name a = n"
  using assms
proof (induction keys arbitrary: m)
  case Nil
  then show ?case by simp
next
  case (Cons key keys)
  let ?m = "m(AccountKey.Name key \<mapsto> Some (newAccount dbg key))"
  have "\<And>k p. ?m k = Some p \<Longrightarrow> \<exists>a. p = Some a \<and> Account.Name a = k"
    using Cons.prems(1) by (auto simp: newAccount_Name split: if_splits)
  moreover have "initAccounts_loop dbg keys ?m n = Some p"
    using Cons.prems(2) by (simp add: Let_def newAccount_Name)
  ultimately show ?case by (rule Cons.IH)
qed

lemma initAccounts_cases:
  "initAccounts env s =
     (case loadKeys env (if keyfile s = [] then ''keys.json'' else keyfile s) of
        Inl err \<Rightarrow> (Fatal (''failed to load keys: '' @ error_message err),
                    s\<lparr>keyfile := (if keyfile s = [] then ''keys.json'' else keyfile s)\<rparr>)
      | Inr keys \<Rightarrow> (Returns (),
                     s\<lparr>keyfile := (if keyfile s = [] then ''keys.json'' else keyfile s),
                       accounts := GoMap (initAccounts_loop (debug s) keys Map.empty)\<rparr>))"
  by (simp add: initAccounts_def Let_def split: sum.splits)


section \<open>The loop of the executor\<close>

lemma worldAfter_Nil: "worldAfter action accts [] w = w"
  by (simp add: worldAfter_def)

lemma worldAfter_Cons:
  "worldAfter action accts (k # ks) w = worldAfter action accts ks (snd (action (index accts k) w))"
  by (simp add: worldAfter_def)

lemma accountsDo_loop_step:
  assumes "action (index accts k) w = (Returns (res, err), w1)" and "index accts k = Some a"
  shows "accountsDo_loop action (k # ks) accts results w =
           accountsDo_loop action ks accts
             (results(Account.Name a \<mapsto>
                (case err of Some e \<Rightarrow> IString (''error: '' @ error_message e) | None \<Rightarrow> res))) w1"
  using assms by (cases err) (simp_all add: derefName_def)

lemma accountsDo_loop_returns:
  fixes action :: "('w, 'p) action"
  assumes "distinct ks"
    and "\<forall>k\<in>set ks. \<exists>a. index accts k = Some a \<and> Account.Name a = k"
    and "\<forall>k\<in>set ks. \<forall>w. \<exists>r. fst (action (index accts k) w) = Returns r"
  shows "\<exists>results'.
           accountsDo_loop action ks accts results w =
             (Returns results', worldAfter action accts ks w) \<and>
           dom results' = dom results \<union> set ks \<and>
           (\<forall>k. k \<notin> set ks \<longrightarrow> results' k = results k) \<and>
           (\<forall>i<length ks. \<forall>res err w1.
              action (index accts (ks ! i)) (worldAfter action accts (take i ks) w) =
                (Returns (res, err), w1) \<longrightarrow>
              results' (ks ! i) =
                Some (case err of Some e \<Rightarrow> IString (''error: '' @ error_message e)
                      | None \<Rightarrow> res))"
  using assms
proof (induction ks arbitrary: results w)
  case Nil
  then show ?case by (simp add: worldAfter_Nil)
next
  case (Cons k ks)
  from Cons.prems(2) obtain a where a: "index accts k = Some a" "Account.Name a = k"
    by auto
  from Cons.prems(3) have "\<exists>r. fst (action (index accts k) w) = Returns r"
    by simp
  then obtain r where "fst (action (index accts k) w) = Returns r"
    by blast
  then obtain res err w1 where call: "action (index accts k) w = (Returns (res, err), w1)"
    by (cases "action (index accts k) w"; cases r) auto
  define v where
    "v = (case err of Some e \<Rightarrow> IString (''error: '' @ error_message e) | None \<Rightarrow> res)"
  have step: "accountsDo_loop action (k # ks) accts results w =
                accountsDo_loop action ks accts (results(k \<mapsto> v)) w1"
    using accountsDo_loop_step [of action accts k w res err w1 a ks results] call a
    by (simp add: v_def)
  have w1: "worldAfter action accts (k # ks) w = worldAfter action accts ks w1"
    by (simp add: worldAfter_Cons call)
  have "distinct ks"
    and "\<forall>k\<in>set ks. \<exists>a. index accts k = Some a \<and> Account.Name a = k"
    and "\<forall>k\<in>set ks. \<forall>w. \<exists>r. fst (action (index accts k) w) = Returns r"
    using Cons.prems by simp_all
  from Cons.IH [OF this, of "results(k \<mapsto> v)" w1]
  obtain results' where
    run: "accountsDo_loop action ks accts (results(k \<mapsto> v)) w1 =
            (Returns results', worldAfter action accts ks w1)"
    and doms: "dom results' = dom (results(k \<mapsto> v)) \<union> set ks"
    and frame: "\<forall>k'. k' \<notin> set ks \<longrightarrow> results' k' = (results(k \<mapsto> v)) k'"
    and recorded: "\<forall>i<length ks. \<forall>res err w2.
              action (index accts (ks ! i)) (worldAfter action accts (take i ks) w1) =
                (Returns (res, err), w2) \<longrightarrow>
              results' (ks ! i) =
                Some (case err of Some e \<Rightarrow> IString (''error: '' @ error_message e)
                      | None \<Rightarrow> res)"
    by blast
  have k_new: "k \<notin> set ks"
    using Cons.prems(1) by simp
  have at_k: "results' k = Some v"
    using frame k_new by simp
  have "\<forall>i<length (k # ks). \<forall>res' err' w2.
          action (index accts ((k # ks) ! i)) (worldAfter action accts (take i (k # ks)) w) =
            (Returns (res', err'), w2) \<longrightarrow>
          results' ((k # ks) ! i) =
            Some (case err' of Some e \<Rightarrow> IString (''error: '' @ error_message e)
                  | None \<Rightarrow> res')"
  proof (intro allI impI)
    fix i res' err' w2
    assume i: "i < length (k # ks)"
      and c: "action (index accts ((k # ks) ! i)) (worldAfter action accts (take i (k # ks)) w) =
                (Returns (res', err'), w2)"
    show "results' ((k # ks) ! i) =
            Some (case err' of Some e \<Rightarrow> IString (''error: '' @ error_message e)
                  | None \<Rightarrow> res')"
    proof (cases i)
      case 0
      with c call have "res' = res" "err' = err"
        by (simp_all add: worldAfter_Nil)
      with 0 at_k show ?thesis by (simp add: v_def split: option.splits)
    next
      case (Suc j)
      with i have j: "j < length ks" by simp
      from c Suc have "action (index accts (ks ! j)) (worldAfter action accts (take j ks) w1) =
                         (Returns (res', err'), w2)"
        by (simp add: worldAfter_Cons call)
      with recorded j Suc show ?thesis by simp
    qed
  qed
  moreover have "dom results' = dom results \<union> set (k # ks)"
    using doms by auto
  moreover have "\<forall>k'. k' \<notin> set (k # ks) \<longrightarrow> results' k' = results k'"
    using frame by simp
  ultimately show ?case
    using step run w1 by simp
qed


section \<open>What the selector leaves unchanged, and what it selects\<close>

lemma initAccounts_frame:
  "stdout (snd (initAccounts env s)) = stdout s"
  "world (snd (initAccounts env s)) = world s"
  "findAccounts (snd (initAccounts env s)) = findAccounts s"
  "name (snd (initAccounts env s)) = name s"
  "debug (snd (initAccounts env s)) = debug s"
  by (simp_all add: initAccounts_cases split: sum.splits)

lemma registry_named:
  assumes "initAccounts env s = (Returns u, s1)" and "entries (accounts s1) k = Some p"
  shows "\<exists>a. p = Some a \<and> Account.Name a = k"
proof -
  from assms(1) obtain keys where
    "accounts s1 = GoMap (initAccounts_loop (debug s) keys Map.empty)"
    by (auto simp: initAccounts_cases split: sum.splits)
  with assms(2) have "initAccounts_loop (debug s) keys Map.empty k = Some p"
    by simp
  then show ?thesis
    by (rule initAccounts_loop_named [rotated]) simp
qed

lemma index_registry_named:
  assumes "initAccounts env s = (Returns u, s1)" and "index (accounts s1) k = Some a"
  shows "Account.Name a = k"
  using assms registry_named [OF assms(1), of k]
  by (auto simp: index_def split: option.splits)

lemma callFindAccounts_frame:
  "stdout (snd (callFindAccounts env s nm)) = stdout s"
  "world (snd (callFindAccounts env s nm)) = world s"
  "findAccounts (snd (callFindAccounts env s nm)) = findAccounts s"
  "name (snd (callFindAccounts env s nm)) = name s"
  using initAccounts_frame [of env s]
  by (auto simp: callFindAccounts_def findAccountsImpl_def findAccountsOnce_def
      split: finder.splits prod.splits outcome.splits list.splits)

lemma selection_named:
  assumes "callFindAccounts env s nm = (Returns accts, s1)" and "index accts k = Some a"
  shows "Account.Name a = k"
proof (cases "findAccounts s")
  case NoFinder
  with assms(1) show ?thesis by (simp add: callFindAccounts_def)
next
  case FindAccountsImpl
  with assms(1) have impl: "findAccountsImpl env s nm = (Returns accts, s1)"
    by (simp add: callFindAccounts_def)
  then obtain u where init: "initAccounts env s = (Returns u, s1)"
    by (auto simp: findAccountsImpl_def split: prod.splits outcome.splits if_splits)
  show ?thesis
  proof (cases "nm = []")
    case True
    with impl init have "accts = accounts s1"
      by (simp add: findAccountsImpl_def)
    with assms(2) init show ?thesis
      by (simp add: index_registry_named)
  next
    case False
    with impl init have "accts = GoMap [nm \<mapsto> index (accounts s1) nm]"
      by (simp add: findAccountsImpl_def)
    with assms(2) have "k = nm" "index (accounts s1) nm = Some a"
      by (auto simp: index_def split: if_splits option.splits)
    with init show ?thesis
      by (simp add: index_registry_named)
  qed
next
  case FindAccountsOnce
  with assms(1) have once: "findAccountsOnce env s nm = (Returns accts, s1)"
    by (simp add: callFindAccounts_def)
  then obtain u where init: "initAccounts env s = (Returns u, s1)"
    by (auto simp: findAccountsOnce_def split: prod.splits outcome.splits list.splits)
  show ?thesis
  proof (cases "rangeOrder env (entries (accounts s1))")
    case Nil
    with once init have "accts = NilMap"
      by (simp add: findAccountsOnce_def)
    with assms(2) show ?thesis by (simp add: index_def)
  next
    case (Cons k' ks)
    with once init have "accts = GoMap [k' \<mapsto> index (accounts s1) k']"
      by (simp add: findAccountsOnce_def)
    with assms(2) have "k = k'" "index (accounts s1) k' = Some a"
      by (auto simp: index_def split: if_splits option.splits)
    with init show ?thesis
      by (simp add: index_registry_named)
  qed
qed

lemma accountsDo_no_finalizer:
  assumes "callFindAccounts env s (name s) = (Returns accts, s1)"
    and "accountsDo_loop action (rangeOrder env (entries accts)) accts Map.empty (world s1) =
           (Returns results, w)"
  shows "accountsDo env action [] s = print env (IMap results) (s1\<lparr>world := w\<rparr>)"
  using assms by (simp add: accountsDo_def)

text \<open>The executor on a selection whose accounts all exist, with an operation that returns
  on each of them.\<close>

lemma selection_fan_out:
  fixes action :: "('w, 'p) action"
  assumes sel: "callFindAccounts env s (name s) = (Returns accts, s1)"
    and order: "range_ok env (entries accts)"
    and present: "\<forall>k\<in>dom (entries accts). index accts k \<noteq> None"
    and returns: "\<forall>k\<in>dom (entries accts). \<forall>w. \<exists>r. fst (action (index accts k) w) = Returns r"
  shows "\<exists>results.
           accountsDo_loop action (rangeOrder env (entries accts)) accts Map.empty (world s1) =
             (Returns results,
              worldAfter action accts (rangeOrder env (entries accts)) (world s1)) \<and>
           dom results = dom (entries accts) \<and>
           card (dom results) = length (rangeOrder env (entries accts)) \<and>
           (\<forall>i<length (rangeOrder env (entries accts)). \<forall>res err w1.
              action (index accts (rangeOrder env (entries accts) ! i))
                (worldAfter action accts (take i (rangeOrder env (entries accts))) (world s1)) =
                (Returns (res, Some err), w1) \<longrightarrow>
              results (rangeOrder env (entries accts) ! i) =
                Some (IString (''error: '' @ error_message err))) \<and>
           (\<forall>i<length (rangeOrder env (entries accts)). \<forall>res w1.
              action (index accts (rangeOrder env (entries accts) ! i))
                (worldAfter action accts (take i (rangeOrder env (entries accts))) (world s1)) =
                (Returns (res, None), w1) \<longrightarrow>
              results (rangeOrder env (entries accts) ! i) = Some res) \<and>
           accountsDo env action [] s =
             print env (IMap results)
               (s1\<lparr>world := worldAfter action accts (rangeOrder env (entries accts)) (world s1)\<rparr>)"
proof -
  let ?ks = "rangeOrder env (entries accts)"
  have ks: "distinct ?ks" "set ?ks = dom (entries accts)"
    using order by (simp_all add: range_ok_def)
  have named: "\<forall>k\<in>set ?ks. \<exists>a. index accts k = Some a \<and> Account.Name a = k"
    using present ks(2) selection_named [OF sel] by fastforce
  have rets: "\<forall>k\<in>set ?ks. \<forall>w. \<exists>r. fst (action (index accts k) w) = Returns r"
    using returns ks(2) by simp
  from accountsDo_loop_returns [OF ks(1) named rets, of Map.empty "world s1"]
  obtain results where
    run: "accountsDo_loop action ?ks accts Map.empty (world s1) =
            (Returns results, worldAfter action accts ?ks (world s1))"
    and doms: "dom results = dom (Map.empty :: 'p results) \<union> set ?ks"
    and recorded: "\<forall>i<length ?ks. \<forall>res err w1.
              action (index accts (?ks ! i)) (worldAfter action accts (take i ?ks) (world s1)) =
                (Returns (res, err), w1) \<longrightarrow>
              results (?ks ! i) =
                Some (case err of Some e \<Rightarrow> IString (''error: '' @ error_message e)
                      | None \<Rightarrow> res)"
    by blast
  have d: "dom results = dom (entries accts)"
    using doms ks(2) by simp
  have c: "card (dom results) = length ?ks"
    using d ks by (metis distinct_card)
  have failing: "\<forall>i<length ?ks. \<forall>res err w1.
              action (index accts (?ks ! i)) (worldAfter action accts (take i ?ks) (world s1)) =
                (Returns (res, Some err), w1) \<longrightarrow>
              results (?ks ! i) = Some (IString (''error: '' @ error_message err))"
    using recorded by fastforce
  have succeeding: "\<forall>i<length ?ks. \<forall>res w1.
              action (index accts (?ks ! i)) (worldAfter action accts (take i ?ks) (world s1)) =
                (Returns (res, None), w1) \<longrightarrow>
              results (?ks ! i) = Some res"
    using recorded by fastforce
  have "accountsDo env action [] s =
          print env (IMap results) (s1\<lparr>world := worldAfter action accts ?ks (world s1)\<rparr>)"
    using accountsDo_no_finalizer [OF sel run] .
  with run d c failing succeeding show ?thesis
    by blast
qed

text \<open>C2. When every selected account exists and the operation returns on each of them,
  the loop of the executor returns a result mapping with exactly one entry per selected
  account. The entry of an account whose operation returned an error is the string
  "error: " followed by the message of that error, the entry of an account whose operation
  succeeded is the payload it returned, and the operation has run on all the accounts in
  turn, whichever of them failed: the world is the one left by the calls on the whole
  selection. Without a finalizer this mapping is what the executor prints.\<close>

theorem C2_fan_out_one_entry_per_account:
  fixes action :: "('w, 'p) action"
  assumes sel: "callFindAccounts env s (name s) = (Returns accts, s1)"
    and order: "range_ok env (entries accts)"
    and present: "\<forall>k\<in>dom (entries accts). index accts k \<noteq> None"
    and returns: "\<forall>k\<in>dom (entries accts). \<forall>w. \<exists>r. fst (action (index accts k) w) = Returns r"
  shows "\<exists>results.
           accountsDo_loop action (rangeOrder env (entries accts)) accts Map.empty (world s1) =
             (Returns results,
              worldAfter action accts (rangeOrder env (entries accts)) (world s1)) \<and>
           dom results = dom (entries accts) \<and>
           card (dom results) = length (rangeOrder env (entries accts)) \<and>
           (\<forall>i<length (rangeOrder env (entries accts)). \<forall>res err w1.
              action (index accts (rangeOrder env (entries accts) ! i))
                (worldAfter action accts (take i (rangeOrder env (entries accts))) (world s1)) =
                (Returns (res, Some err), w1) \<longrightarrow>
              results (rangeOrder env (entries accts) ! i) =
                Some (IString (''error: '' @ error_message err))) \<and>
           (\<forall>i<length (rangeOrder env (entries accts)). \<forall>res w1.
              action (index accts (rangeOrder env (entries accts) ! i))
                (worldAfter action accts (take i (rangeOrder env (entries accts))) (world s1)) =
                (Returns (res, None), w1) \<longrightarrow>
              results (rangeOrder env (entries accts) ! i) = Some res) \<and>
           accountsDo env action [] s =
             print env (IMap results)
               (s1\<lparr>world := worldAfter action accts (rangeOrder env (entries accts)) (world s1)\<rparr>)"
  using assms by (rule selection_fan_out)



section \<open>Evaluating the model on the concrete inputs\<close>

lemmas demo_defs =
  keyA_def keyB_def keyA2_def demo_show_def demo_env_def demo_files_def demo_state_def
  demo_action_def demo_failing_def demo_final_ok_def demo_final_err_def

lemmas run_defs =
  loadKeys_def newAccount_def NewClient_def initAccounts_def findAccountsImpl_def
  findAccountsOnce_def callFindAccounts_def index_def derefName_def print_def
  accountsDo_def runOnce_def worldAfter_def range_ok_def Let_def

text \<open>With the accounts A and B, where the operation fails on A: both are attempted, A is
  recorded as an error string, B with its payload, and the process prints both.\<close>

theorem C2_fan_out_one_entry_per_account_witness:
  "\<exists>results.
     accountsDo_loop demo_action [''A'', ''B'']
       (GoMap (initAccounts_loop False [keyA, keyB] Map.empty)) Map.empty [] =
       (Returns results, [''A'', ''B'']) \<and>
     dom results = {''A'', ''B''} \<and>
     results ''A'' = Some (IString ''error: auth'') \<and>
     results ''B'' = Some (IVal ''7.5'') \<and>
     accountsDo (demo_env demo_files (Inr [keyA, keyB])) demo_action []
       (demo_state [] FindAccountsImpl) =
       (Returns None,
        (demo_state [] FindAccountsImpl)
          \<lparr>keyfile := ''keys.json'',
           accounts := GoMap (initAccounts_loop False [keyA, keyB] Map.empty),
           stdout := [''{A: error: auth; B: 7.5; }''],
           world := [''A'', ''B'']\<rparr>)"
proof -
  let ?env = "demo_env demo_files (Inr [keyA, keyB])"
  let ?s = "demo_state [] FindAccountsImpl"
  let ?accts = "GoMap (initAccounts_loop False [keyA, keyB] Map.empty) :: accountMap"
  let ?s1 = "?s\<lparr>keyfile := ''keys.json'', accounts := ?accts\<rparr>"
  have ks: "rangeOrder ?env (entries ?accts) = [''A'', ''B'']"
    by (simp add: demo_defs run_defs)
  have sel: "callFindAccounts ?env ?s (name ?s) = (Returns ?accts, ?s1)"
    by (simp add: demo_defs run_defs)
  have order: "range_ok ?env (entries ?accts)"
    by (auto simp: demo_defs run_defs)
  have present: "\<forall>k\<in>dom (entries ?accts). index ?accts k \<noteq> None"
    by (auto simp: demo_defs run_defs split: if_splits)
  have returns: "\<forall>k\<in>dom (entries ?accts). \<forall>w. \<exists>r. fst (demo_action (index ?accts k) w) = Returns r"
    by (auto simp: demo_action_def split: option.splits)
  from C2_fan_out_one_entry_per_account [OF sel order present returns]
  obtain results where
    run: "accountsDo_loop demo_action (rangeOrder ?env (entries ?accts)) ?accts Map.empty (world ?s1) =
            (Returns results, worldAfter demo_action ?accts (rangeOrder ?env (entries ?accts)) (world ?s1))"
    and doms: "dom results = dom (entries ?accts)"
    and failing: "\<forall>i<length (rangeOrder ?env (entries ?accts)). \<forall>res err w1.
              demo_action (index ?accts (rangeOrder ?env (entries ?accts) ! i))
                (worldAfter demo_action ?accts (take i (rangeOrder ?env (entries ?accts))) (world ?s1)) =
                (Returns (res, Some err), w1) \<longrightarrow>
              results (rangeOrder ?env (entries ?accts) ! i) =
                Some (IString (''error: '' @ error_message err))"
    and succeeding: "\<forall>i<length (rangeOrder ?env (entries ?accts)). \<forall>res w1.
              demo_action (index ?accts (rangeOrder ?env (entries ?accts) ! i))
                (worldAfter demo_action ?accts (take i (rangeOrder ?env (entries ?accts))) (world ?s1)) =
                (Returns (res, None), w1) \<longrightarrow>
              results (rangeOrder ?env (entries ?accts) ! i) = Some res"
    and printed: "accountsDo ?env demo_action [] ?s =
             print ?env (IMap results)
               (?s1\<lparr>world := worldAfter demo_action ?accts (rangeOrder ?env (entries ?accts)) (world ?s1)\<rparr>)"
    by blast
  have w: "worldAfter demo_action ?accts [''A'', ''B''] [] = [''A'', ''B'']"
    by (simp add: demo_defs run_defs)
  have ws: "world ?s1 = []"
    by (simp add: demo_state_def)
  have run': "accountsDo_loop demo_action [''A'', ''B''] ?accts Map.empty [] =
                (Returns results, [''A'', ''B''])"
    using run unfolding ks ws w .
  have d: "dom results = {''A'', ''B''}"
    using doms by (auto simp: demo_defs run_defs split: if_splits)
  have a: "results ''A'' = Some (IString ''error: auth'')"
    using failing [unfolded ks ws, rule_format, of 0 INil "Error ''auth''" "[''A'']"]
    by (simp add: demo_defs run_defs)
  have b: "results ''B'' = Some (IVal ''7.5'')"
    using succeeding [unfolded ks ws, rule_format, of 1 "IVal ''7.5''" "[''A'', ''B'']"]
    by (simp add: demo_defs run_defs)
  have others: "\<And>k. k \<noteq> ''A'' \<Longrightarrow> k \<noteq> ''B'' \<Longrightarrow> results k = None"
    using d by (metis domIff insert_iff empty_iff)
  have shown: "demo_show (IMap results) = ''{A: error: auth; B: 7.5; }''"
    using a b by (simp add: demo_show_def)
  have "accountsDo ?env demo_action [] ?s =
          (Returns None, ?s1\<lparr>stdout := [''{A: error: auth; B: 7.5; }''], world := [''A'', ''B'']\<rparr>)"
    unfolding printed ks ws w using shown
    by (simp add: print_def demo_env_def demo_state_def)
  with run' d a b show ?thesis
    by (simp add: demo_state_def)
qed


section \<open>The claims about the credential store, the registry and the selector\<close>

text \<open>C4. When the credential file yields the records \<open>keys\<close>, the registry that
  \<open>initAccounts\<close> builds has exactly the names of the records as its keys; every entry
  is an account whose name is its key; and a record that no later record shares its name
  with has the account built from it under its name: of records with one name, the last
  one wins.\<close>

theorem C4_registry_last_record_wins:
  assumes "loadKeys env (if keyfile s = [] then ''keys.json'' else keyfile s) = Inr keys"
  shows "\<exists>m. fst (initAccounts env s) = Returns () \<and>
             accounts (snd (initAccounts env s)) = GoMap m \<and>
             dom m = AccountKey.Name ` set keys \<and>
             (\<forall>n\<in>dom m. \<exists>a. m n = Some (Some a) \<and> Account.Name a = n) \<and>
             (\<forall>pre key post.
                keys = pre @ key # post \<and> AccountKey.Name key \<notin> AccountKey.Name ` set post \<longrightarrow>
                m (AccountKey.Name key) = Some (Some (newAccount (debug s) key)))"
proof -
  let ?m = "initAccounts_loop (debug s) keys Map.empty"
  have init: "initAccounts env s =
                (Returns (),
                 s\<lparr>keyfile := (if keyfile s = [] then ''keys.json'' else keyfile s),
                   accounts := GoMap ?m\<rparr>)"
    using assms by (simp add: initAccounts_cases)
  have returned: "fst (initAccounts env s) = Returns ()"
    and registry: "accounts (snd (initAccounts env s)) = GoMap ?m"
    using init by simp_all
  have "dom ?m = AccountKey.Name ` set keys"
    by (simp add: initAccounts_loop_dom)
  moreover have "\<forall>n\<in>dom ?m. \<exists>a. ?m n = Some (Some a) \<and> Account.Name a = n"
  proof
    fix n assume "n \<in> dom ?m"
    then obtain p where p: "?m n = Some p" by auto
    then have "\<exists>a. p = Some a \<and> Account.Name a = n"
      by (rule initAccounts_loop_named [rotated]) simp
    with p show "\<exists>a. ?m n = Some (Some a) \<and> Account.Name a = n" by auto
  qed
  moreover have "\<forall>pre key post.
      keys = pre @ key # post \<and> AccountKey.Name key \<notin> AccountKey.Name ` set post \<longrightarrow>
      ?m (AccountKey.Name key) = Some (Some (newAccount (debug s) key))"
    using initAccounts_loop_last by blast
  ultimately show ?thesis
    using returned registry by blast
qed

text \<open>The records A, B and a second A: two accounts, and A is the one of the second record.\<close>

theorem C4_registry_last_record_wins_witness:
  "\<exists>m. accounts (snd (initAccounts (demo_env demo_files (Inr [keyA, keyB, keyA2]))
                         (demo_state [] FindAccountsImpl))) = GoMap m \<and>
       dom m = {''A'', ''B''} \<and>
       m ''A'' = Some (Some (newAccount False keyA2)) \<and>
       m ''B'' = Some (Some (newAccount False keyB))"
proof -
  let ?env = "demo_env demo_files (Inr [keyA, keyB, keyA2])"
  let ?s = "demo_state [] FindAccountsImpl"
  have load: "loadKeys ?env (if keyfile ?s = [] then ''keys.json'' else keyfile ?s) =
                Inr [keyA, keyB, keyA2]"
    by (simp add: demo_defs loadKeys_def)
  from C4_registry_last_record_wins [OF load]
  obtain m where
    m: "accounts (snd (initAccounts ?env ?s)) = GoMap m"
    and d: "dom m = AccountKey.Name ` set [keyA, keyB, keyA2]"
    and l: "\<forall>pre key post.
              [keyA, keyB, keyA2] = pre @ key # post \<and>
              AccountKey.Name key \<notin> AccountKey.Name ` set post \<longrightarrow>
              m (AccountKey.Name key) = Some (Some (newAccount (debug ?s) key))"
    by blast
  have "dom m = {''A'', ''B''}"
    using d by (auto simp: demo_defs)
  moreover have "m ''A'' = Some (Some (newAccount False keyA2))"
    using l [rule_format, of "[keyA, keyB]" keyA2 "[]"] by (simp add: demo_defs)
  moreover have "m ''B'' = Some (Some (newAccount False keyB))"
    using l [rule_format, of "[keyA]" keyB "[keyA2]"] by (simp add: demo_defs)
  ultimately show ?thesis
    using m by blast
qed

text \<open>C5. Over the registry that \<open>initAccounts\<close> has rebuilt, \<open>findAccountsImpl\<close> with the
  empty name returns the registry itself, and with a name that is in the registry it returns
  the mapping with that name alone, mapped to the account of that name.\<close>

theorem C5_selector_all_or_named:
  assumes "initAccounts env s = (Returns (), s1)"
  shows "findAccountsImpl env s [] = (Returns (accounts s1), s1) \<and>
         (\<forall>nm p. nm \<noteq> [] \<and> entries (accounts s1) nm = Some p \<longrightarrow>
            findAccountsImpl env s nm = (Returns (GoMap [nm \<mapsto> p]), s1) \<and>
            (\<exists>a. p = Some a \<and> Account.Name a = nm))"
  using assms registry_named [OF assms]
  by (auto simp: findAccountsImpl_def index_def)

theorem C5_selector_all_or_named_witness:
  "findAccountsImpl (demo_env demo_files (Inr [keyA, keyB])) (demo_state [] FindAccountsImpl) [] =
     (Returns (GoMap [''A'' \<mapsto> Some (newAccount False keyA), ''B'' \<mapsto> Some (newAccount False keyB)]),
      (demo_state [] FindAccountsImpl)
        \<lparr>keyfile := ''keys.json'',
         accounts := GoMap [''A'' \<mapsto> Some (newAccount False keyA),
                            ''B'' \<mapsto> Some (newAccount False keyB)]\<rparr>) \<and>
   findAccountsImpl (demo_env demo_files (Inr [keyA, keyB])) (demo_state [] FindAccountsImpl) ''B'' =
     (Returns (GoMap [''B'' \<mapsto> Some (newAccount False keyB)]),
      (demo_state [] FindAccountsImpl)
        \<lparr>keyfile := ''keys.json'',
         accounts := GoMap [''A'' \<mapsto> Some (newAccount False keyA),
                            ''B'' \<mapsto> Some (newAccount False keyB)]\<rparr>)"
proof -
  let ?env = "demo_env demo_files (Inr [keyA, keyB])"
  let ?s = "demo_state [] FindAccountsImpl"
  let ?reg = "[''A'' \<mapsto> Some (newAccount False keyA), ''B'' \<mapsto> Some (newAccount False keyB)]"
  let ?s1 = "?s\<lparr>keyfile := ''keys.json'', accounts := GoMap ?reg\<rparr>"
  have init: "initAccounts ?env ?s = (Returns (), ?s1)"
    by (simp add: demo_defs loadKeys_def initAccounts_def newAccount_Name)
  have b: "''B'' \<noteq> [] \<and> entries (accounts ?s1) ''B'' = Some (Some (newAccount False keyB))"
    by simp
  from C5_selector_all_or_named [OF init] b show ?thesis
    by simp
qed

text \<open>C8. \<open>initAccounts\<close> loads from "keys.json" when the keyfile setting is empty, and from
  the path of the setting otherwise: that path is the setting afterwards, the call returns
  exactly when \<open>loadKeys\<close> succeeds on that path, and no file under another path matters.\<close>

theorem C8_keyfile_default:
  "(keyfile s = [] \<longrightarrow>
      keyfile (snd (initAccounts env s)) = ''keys.json'' \<and>
      (fst (initAccounts env s) = Returns () \<longleftrightarrow> (\<exists>keys. loadKeys env ''keys.json'' = Inr keys)) \<and>
      (\<forall>env'. readFile env' ''keys.json'' = readFile env ''keys.json'' \<and>
              unmarshalKeys env' = unmarshalKeys env \<longrightarrow>
              initAccounts env' s = initAccounts env s)) \<and>
   (keyfile s \<noteq> [] \<longrightarrow>
      keyfile (snd (initAccounts env s)) = keyfile s \<and>
      (fst (initAccounts env s) = Returns () \<longleftrightarrow> (\<exists>keys. loadKeys env (keyfile s) = Inr keys)) \<and>
      (\<forall>env'. readFile env' (keyfile s) = readFile env (keyfile s) \<and>
              unmarshalKeys env' = unmarshalKeys env \<longrightarrow>
              initAccounts env' s = initAccounts env s))"
  by (auto simp: initAccounts_cases loadKeys_def split: sum.splits)

theorem C8_keyfile_default_witness:
  "keyfile (snd (initAccounts (demo_env demo_files (Inr [keyA])) (demo_state [] FindAccountsImpl))) =
     ''keys.json'' \<and>
   fst (initAccounts (demo_env demo_files (Inr [keyA])) (demo_state [] FindAccountsImpl)) = Returns () \<and>
   keyfile (snd (initAccounts (demo_env demo_files (Inr [keyA]))
                   ((demo_state [] FindAccountsImpl)\<lparr>keyfile := ''my.json''\<rparr>))) = ''my.json'' \<and>
   fst (initAccounts (demo_env demo_files (Inr [keyA]))
          ((demo_state [] FindAccountsImpl)\<lparr>keyfile := ''my.json''\<rparr>)) \<noteq> Returns ()"
proof -
  let ?env = "demo_env demo_files (Inr [keyA])"
  let ?s = "demo_state [] FindAccountsImpl"
  have k1: "keyfile ?s = []" and k2: "keyfile (?s\<lparr>keyfile := ''my.json''\<rparr>) \<noteq> []"
    by (simp_all add: demo_state_def)
  have l1: "\<exists>keys. loadKeys ?env ''keys.json'' = Inr keys"
    by (simp add: demo_defs loadKeys_def)
  have l2: "\<not> (\<exists>keys. loadKeys ?env (keyfile (?s\<lparr>keyfile := ''my.json''\<rparr>)) = Inr keys)"
    by (simp add: demo_defs loadKeys_def)
  note default = C8_keyfile_default [of ?s ?env, THEN conjunct1, THEN mp, OF k1]
  note given = C8_keyfile_default [of "?s\<lparr>keyfile := ''my.json''\<rparr>" ?env,
      THEN conjunct2, THEN mp, OF k2]
  have "keyfile (snd (initAccounts ?env ?s)) = ''keys.json''"
    using default by (rule conjunct1)
  moreover have "fst (initAccounts ?env ?s) = Returns ()"
    using default [THEN conjunct2, THEN conjunct1] l1 by (rule iffD2)
  moreover have "keyfile (snd (initAccounts ?env (?s\<lparr>keyfile := ''my.json''\<rparr>))) = ''my.json''"
    using given [THEN conjunct1] by (simp add: demo_state_def)
  moreover have "fst (initAccounts ?env (?s\<lparr>keyfile := ''my.json''\<rparr>)) \<noteq> Returns ()"
    using given [THEN conjunct2, THEN conjunct1] l2 by blast
  ultimately show ?thesis
    by (intro conjI)
qed


section \<open>A name that is not in the registry\<close>

lemma accountsDo_loop_nil_account:
  assumes "index accts k = None"
  shows "accountsDo_loop action (k # ks) accts results w =
           (case action None w of
              (Returns r, w1) \<Rightarrow> (Panics ''nil pointer dereference'', w1)
            | (Fatal m, w1) \<Rightarrow> (Fatal m, w1)
            | (Panics m, w1) \<Rightarrow> (Panics m, w1))"
  using assms
  by (simp add: derefName_def split: prod.splits outcome.splits option.splits)

lemma distinct_singleton:
  assumes "distinct xs" and "set xs = {k}"
  shows "xs = [k]"
proof (cases xs)
  case Nil
  with assms(2) show ?thesis by simp
next
  case (Cons x ys)
  with assms(2) have x: "x = k" by auto
  have "ys = []"
  proof (cases ys)
    case Nil
    then show ?thesis .
  next
    case (Cons y zs)
    with \<open>xs = x # ys\<close> assms(2) have "y = k" by auto
    with Cons \<open>xs = x # ys\<close> x assms(1) show ?thesis by simp
  qed
  with Cons x show ?thesis by simp
qed

lemma range_single:
  assumes "range_ok env [k \<mapsto> p]"
  shows "rangeOrder env [k \<mapsto> p] = [k]"
  using assms by (intro distinct_singleton) (simp_all add: range_ok_def)


lemma accountsDo_absent_name:
  fixes action :: "('w, 'p) action"
  assumes init: "initAccounts env s = (Returns (), s1)"
    and impl: "findAccounts s = FindAccountsImpl"
    and nm: "name s \<noteq> []"
    and absent: "entries (accounts s1) (name s) = None"
    and order: "range_ok env [name s \<mapsto> None]"
  shows "accountsDo env action postAction s =
           (case action None (world s1) of
              (Returns r, w1) \<Rightarrow> (Panics ''nil pointer dereference'', s1\<lparr>world := w1\<rparr>)
            | (Fatal m, w1) \<Rightarrow> (Fatal m, s1\<lparr>world := w1\<rparr>)
            | (Panics m, w1) \<Rightarrow> (Panics m, s1\<lparr>world := w1\<rparr>))"
proof -
  let ?sel = "GoMap [name s \<mapsto> None] :: accountMap"
  have sel: "callFindAccounts env s (name s) = (Returns ?sel, s1)"
    using init impl nm absent
    by (simp add: callFindAccounts_def findAccountsImpl_def index_def)
  have nil: "index ?sel (name s) = None"
    by (simp add: index_def)
  have loop: "accountsDo_loop action [name s] ?sel Map.empty (world s1) =
                (case action None (world s1) of
                   (Returns r, w1) \<Rightarrow> (Panics ''nil pointer dereference'', w1)
                 | (Fatal m, w1) \<Rightarrow> (Fatal m, w1)
                 | (Panics m, w1) \<Rightarrow> (Panics m, w1))"
    by (rule accountsDo_loop_nil_account [OF nil])
  have "accountsDo env action postAction s =
          (case accountsDo_loop action [name s] ?sel Map.empty (world s1) of
             (Fatal m, w) \<Rightarrow> (Fatal m, s1\<lparr>world := w\<rparr>)
           | (Panics m, w) \<Rightarrow> (Panics m, s1\<lparr>world := w\<rparr>)
           | (Returns results, w) \<Rightarrow>
               (case postAction of
                  pa # rest \<Rightarrow>
                    (case pa results w of
                       (Fatal m, w') \<Rightarrow> (Fatal m, s1\<lparr>world := w'\<rparr>)
                     | (Panics m, w') \<Rightarrow> (Panics m, s1\<lparr>world := w'\<rparr>)
                     | (Returns (ret, Some err), w') \<Rightarrow>
                         (Returns (Some (Trace err)), s1\<lparr>world := w'\<rparr>)
                     | (Returns (ret, None), w') \<Rightarrow> print env ret (s1\<lparr>world := w'\<rparr>))
                | [] \<Rightarrow> print env (IMap results) (s1\<lparr>world := w\<rparr>)))"
    unfolding accountsDo_def sel using range_single [OF order] by simp
  also have "\<dots> = (case action None (world s1) of
              (Returns r, w1) \<Rightarrow> (Panics ''nil pointer dereference'', s1\<lparr>world := w1\<rparr>)
            | (Fatal m, w1) \<Rightarrow> (Fatal m, s1\<lparr>world := w1\<rparr>)
            | (Panics m, w1) \<Rightarrow> (Panics m, s1\<lparr>world := w1\<rparr>))"
    unfolding loop by (simp split: prod.splits outcome.splits)
  finally show ?thesis .
qed

text \<open>C1. The specification wants a name that is not in the registry to come out as an
  error string under that name, and no crash. With the registry holding A alone and the
  name B: \<open>findAccountsImpl\<close> returns the mapping of B to nil, as the specification says; the
  executor calls the operation on the nil account, the operation returns an error, and on the
  branch that records the error string the executor reads the key through the nil pointer
  and panics. Nothing is printed.\<close>

theorem C1_absent_name_panics:
  "findAccountsImpl (demo_env demo_files (Inr [keyA])) (demo_state ''B'' FindAccountsImpl) ''B'' =
     (Returns (GoMap [''B'' \<mapsto> None]),
      (demo_state ''B'' FindAccountsImpl)
        \<lparr>keyfile := ''keys.json'',
         accounts := GoMap [''A'' \<mapsto> Some (newAccount False keyA)]\<rparr>) \<and>
   demo_action None [] = (Returns (INil, Some (Error ''no account'')), [''nil'']) \<and>
   accountsDo (demo_env demo_files (Inr [keyA])) demo_action []
     (demo_state ''B'' FindAccountsImpl) =
     (Panics ''nil pointer dereference'',
      (demo_state ''B'' FindAccountsImpl)
        \<lparr>keyfile := ''keys.json'',
         accounts := GoMap [''A'' \<mapsto> Some (newAccount False keyA)],
         world := [''nil'']\<rparr>) \<and>
   exitStatus (fst (accountsDo (demo_env demo_files (Inr [keyA])) demo_action []
                      (demo_state ''B'' FindAccountsImpl))) = 2"
  by (simp add: demo_defs run_defs newAccount_Name)


section \<open>After the loop: finalizer and rendering\<close>

lemma stdout_print:
  "stdout (snd (print env ret s)) =
     (case marshalIndent env ret of Inl e \<Rightarrow> stdout s | Inr out \<Rightarrow> stdout s @ [out])"
  by (simp add: print_def split: sum.splits)

lemma accountsDo_after_loop:
  assumes "callFindAccounts env s (name s) = (Returns accts, s1)"
    and "accountsDo_loop action (rangeOrder env (entries accts)) accts Map.empty (world s1) =
           (Returns results, w)"
  shows "accountsDo env action postAction s =
           (case postAction of
              pa # rest \<Rightarrow>
                (case pa results w of
                   (Fatal m, w') \<Rightarrow> (Fatal m, s1\<lparr>world := w'\<rparr>)
                 | (Panics m, w') \<Rightarrow> (Panics m, s1\<lparr>world := w'\<rparr>)
                 | (Returns (ret, Some err), w') \<Rightarrow>
                     (Returns (Some (Trace err)), s1\<lparr>world := w'\<rparr>)
                 | (Returns (ret, None), w') \<Rightarrow> print env ret (s1\<lparr>world := w'\<rparr>))
            | [] \<Rightarrow> print env (IMap results) (s1\<lparr>world := w\<rparr>))"
  using assms by (simp add: accountsDo_def)

text \<open>C3. Once the loop has returned the results: a finalizer that returns an error makes
  the executor return that error, wrapped by \<open>errors.Trace\<close> with the same message, and
  nothing is printed; a finalizer that succeeds makes the executor print the finalized value
  and nothing else; without a finalizer the executor prints the results mapping and nothing
  else. \<open>print\<close> writes one line, or none when the value cannot be marshalled.\<close>

theorem C3_finalizer_error_else_one_render:
  fixes action :: "('w, 'p) action"
  assumes sel: "callFindAccounts env s (name s) = (Returns accts, s1)"
    and run: "accountsDo_loop action (rangeOrder env (entries accts)) accts Map.empty (world s1) =
                (Returns results, w)"
  shows "(\<forall>pa rest ret err w'. pa results w = (Returns (ret, Some err), w') \<longrightarrow>
            accountsDo env action (pa # rest) s =
              (Returns (Some (Trace err)), s1\<lparr>world := w'\<rparr>) \<and>
            error_message (Trace err) = error_message err \<and>
            stdout (snd (accountsDo env action (pa # rest) s)) = stdout s) \<and>
         (\<forall>pa rest ret w'. pa results w = (Returns (ret, None), w') \<longrightarrow>
            accountsDo env action (pa # rest) s = print env ret (s1\<lparr>world := w'\<rparr>) \<and>
            stdout (snd (accountsDo env action (pa # rest) s)) =
              (case marshalIndent env ret of
                 Inl e \<Rightarrow> stdout s
               | Inr out \<Rightarrow> stdout s @ [out])) \<and>
         accountsDo env action [] s = print env (IMap results) (s1\<lparr>world := w\<rparr>) \<and>
         stdout (snd (accountsDo env action [] s)) =
           (case marshalIndent env (IMap results) of
              Inl e \<Rightarrow> stdout s
            | Inr out \<Rightarrow> stdout s @ [out])"
proof -
  have out: "stdout s1 = stdout s"
    using callFindAccounts_frame(1) [of env s "name s"] sel by simp
  note after = accountsDo_after_loop [OF sel run]
  show ?thesis
    by (simp add: after stdout_print out split: sum.splits)
qed

text \<open>With the accounts A and B: a failing finalizer prints nothing and its error comes
  back; a succeeding one prints its value alone; without one the results are printed.\<close>

theorem C3_finalizer_error_else_one_render_witness:
  "accountsDo (demo_env demo_files (Inr [keyA, keyB])) demo_action [demo_final_err]
     (demo_state [] FindAccountsImpl) =
     (Returns (Some (Trace (Error ''bad totals''))),
      (demo_state [] FindAccountsImpl)
        \<lparr>keyfile := ''keys.json'',
         accounts := GoMap (initAccounts_loop False [keyA, keyB] Map.empty),
         world := [''A'', ''B'']\<rparr>) \<and>
   stdout (snd (accountsDo (demo_env demo_files (Inr [keyA, keyB])) demo_action [demo_final_err]
                  (demo_state [] FindAccountsImpl))) = [] \<and>
   stdout (snd (accountsDo (demo_env demo_files (Inr [keyA, keyB])) demo_action [demo_final_ok]
                  (demo_state [] FindAccountsImpl))) = [''total''] \<and>
   stdout (snd (accountsDo (demo_env demo_files (Inr [keyA, keyB])) demo_action []
                  (demo_state [] FindAccountsImpl))) = [''{A: error: auth; B: 7.5; }'']"
proof -
  let ?env = "demo_env demo_files (Inr [keyA, keyB])"
  let ?s = "demo_state [] FindAccountsImpl"
  let ?accts = "GoMap (initAccounts_loop False [keyA, keyB] Map.empty) :: accountMap"
  let ?s1 = "?s\<lparr>keyfile := ''keys.json'', accounts := ?accts\<rparr>"
  let ?results = "[''A'' \<mapsto> IString ''error: auth'', ''B'' \<mapsto> IVal ''7.5''] :: string results"
  have sel: "callFindAccounts ?env ?s (name ?s) = (Returns ?accts, ?s1)"
    by (simp add: demo_defs run_defs)
  have run: "accountsDo_loop demo_action (rangeOrder ?env (entries ?accts)) ?accts Map.empty
               (world ?s1) = (Returns ?results, [''A'', ''B''])"
    by (simp add: demo_defs run_defs)
  note c3 = C3_finalizer_error_else_one_render [OF sel run]
  have err: "demo_final_err ?results [''A'', ''B''] =
               (Returns (INil, Some (Error ''bad totals'')), [''A'', ''B''])"
    and ok: "demo_final_ok ?results [''A'', ''B''] =
               (Returns (IString ''total'', None), [''A'', ''B''])"
    by (simp_all add: demo_final_err_def demo_final_ok_def)
  have out: "stdout ?s = []"
    by (simp add: demo_state_def)
  have m1: "marshalIndent ?env (IString ''total'') = Inr ''total''"
    and m2: "marshalIndent ?env (IMap ?results) = Inr ''{A: error: auth; B: 7.5; }''"
    by (simp_all add: demo_env_def demo_show_def)
  note failed = c3 [THEN conjunct1, rule_format,
      where pa = demo_final_err and rest = "[]", OF err]
  note finalized = c3 [THEN conjunct2, THEN conjunct1, rule_format,
      where pa = demo_final_ok and rest = "[]", OF ok]
  note raw = c3 [THEN conjunct2, THEN conjunct2, THEN conjunct2]
  have a: "accountsDo ?env demo_action [demo_final_err] ?s =
             (Returns (Some (Trace (Error ''bad totals''))), ?s1\<lparr>world := [''A'', ''B'']\<rparr>)"
    using failed by (rule conjunct1)
  have b: "stdout (snd (accountsDo ?env demo_action [demo_final_err] ?s)) = []"
    using failed [THEN conjunct2, THEN conjunct2] by (simp only: out)
  have c: "stdout (snd (accountsDo ?env demo_action [demo_final_ok] ?s)) = [''total'']"
    using finalized [THEN conjunct2] by (simp add: out m1)
  have d: "stdout (snd (accountsDo ?env demo_action [] ?s)) = [''{A: error: auth; B: 7.5; }'']"
    using raw by (simp add: out m2)
  from a b c d show ?thesis
    by (intro conjI)
qed

section \<open>A credential file that cannot be loaded\<close>

lemma loadKeys_fails:
  assumes "readFile env p = Inl e \<or>
           (\<exists>content. readFile env p = Inr content \<and> unmarshalKeys env content = Inl e)"
  shows "loadKeys env p = Inl (Trace e)"
  using assms by (auto simp: loadKeys_def)

text \<open>C6. When the credential file cannot be read, or its content cannot be parsed, the
  executor ends in \<open>log.Fatal\<close>: the process exits with status 1, nothing has been printed,
  and the operation has not run on any account (the world is untouched). The same holds
  when the executor is entered through \<open>runOnce\<close>.\<close>

theorem C6_unloadable_credentials_are_fatal:
  fixes action :: "('w, 'p) action"
  assumes finder: "findAccounts s \<noteq> NoFinder"
    and fails: "readFile env (if keyfile s = [] then ''keys.json'' else keyfile s) = Inl e \<or>
                (\<exists>content.
                   readFile env (if keyfile s = [] then ''keys.json'' else keyfile s) = Inr content \<and>
                   unmarshalKeys env content = Inl e)"
  shows "fst (accountsDo env action postAction s) =
           Fatal (''failed to load keys: '' @ error_message e) \<and>
         exitStatus (fst (accountsDo env action postAction s)) = 1 \<and>
         stdout (snd (accountsDo env action postAction s)) = stdout s \<and>
         world (snd (accountsDo env action postAction s)) = world s \<and>
         fst (runOnce env action postAction s) =
           Fatal (''failed to load keys: '' @ error_message e) \<and>
         stdout (snd (runOnce env action postAction s)) = stdout s \<and>
         world (snd (runOnce env action postAction s)) = world s"
proof -
  let ?p = "if keyfile s = [] then ''keys.json'' else keyfile s"
  let ?msg = "''failed to load keys: '' @ error_message e"
  have load: "loadKeys env ?p = Inl (Trace e)"
    using fails by (rule loadKeys_fails)
  have init: "\<And>f. initAccounts env (s\<lparr>findAccounts := f\<rparr>) =
                  (Fatal ?msg, s\<lparr>findAccounts := f, keyfile := ?p\<rparr>)"
    using load by (cases "keyfile s = []") (simp_all add: initAccounts_cases)
  have find: "\<And>f. f \<noteq> NoFinder \<Longrightarrow>
                callFindAccounts env (s\<lparr>findAccounts := f\<rparr>) (name s) =
                  (Fatal ?msg, s\<lparr>findAccounts := f, keyfile := ?p\<rparr>)"
    using init
    by (simp add: callFindAccounts_def findAccountsImpl_def findAccountsOnce_def
        split: finder.splits)
  have do: "\<And>f. f \<noteq> NoFinder \<Longrightarrow>
              accountsDo env action postAction (s\<lparr>findAccounts := f\<rparr>) =
                (Fatal ?msg, s\<lparr>findAccounts := f, keyfile := ?p\<rparr>)"
    using find by (simp add: accountsDo_def)
  have "accountsDo env action postAction s = (Fatal ?msg, s\<lparr>keyfile := ?p\<rparr>)"
    using do [OF finder] by simp
  moreover have "runOnce env action postAction s =
                   (Fatal ?msg, s\<lparr>findAccounts := FindAccountsOnce, keyfile := ?p\<rparr>)"
    using do [of FindAccountsOnce] by (simp add: runOnce_def)
  ultimately show ?thesis
    by simp
qed

text \<open>No file at all, and a file that does not parse.\<close>

theorem C6_unloadable_credentials_are_fatal_witness:
  "fst (accountsDo (demo_env Map.empty (Inr [keyA])) demo_action []
          (demo_state [] FindAccountsImpl)) =
     Fatal ''failed to load keys: no such file or directory'' \<and>
   world (snd (accountsDo (demo_env Map.empty (Inr [keyA])) demo_action []
                 (demo_state [] FindAccountsImpl))) = [] \<and>
   stdout (snd (accountsDo (demo_env Map.empty (Inr [keyA])) demo_action []
                  (demo_state [] FindAccountsImpl))) = [] \<and>
   fst (accountsDo (demo_env demo_files (Inl (Error ''unexpected end of JSON input'')))
          demo_action [] (demo_state [] FindAccountsImpl)) =
     Fatal ''failed to load keys: unexpected end of JSON input''"
proof -
  let ?s = "demo_state [] FindAccountsImpl"
  let ?nofile = "demo_env Map.empty (Inr [keyA])"
  let ?badfile = "demo_env demo_files (Inl (Error ''unexpected end of JSON input''))"
  have finder: "findAccounts ?s \<noteq> NoFinder"
    by (simp add: demo_state_def)
  have unreadable:
    "readFile ?nofile (if keyfile ?s = [] then ''keys.json'' else keyfile ?s) =
       Inl (Error ''no such file or directory'') \<or>
     (\<exists>content.
        readFile ?nofile (if keyfile ?s = [] then ''keys.json'' else keyfile ?s) = Inr content \<and>
        unmarshalKeys ?nofile content = Inl (Error ''no such file or directory''))"
    by (simp add: demo_env_def demo_state_def)
  have malformed:
    "readFile ?badfile (if keyfile ?s = [] then ''keys.json'' else keyfile ?s) =
       Inl (Error ''unexpected end of JSON input'') \<or>
     (\<exists>content.
        readFile ?badfile (if keyfile ?s = [] then ''keys.json'' else keyfile ?s) = Inr content \<and>
        unmarshalKeys ?badfile content = Inl (Error ''unexpected end of JSON input''))"
    by (simp add: demo_env_def demo_state_def demo_files_def)
  have s: "stdout ?s = []" "world ?s = []"
    by (simp_all add: demo_state_def)
  from C6_unloadable_credentials_are_fatal [OF finder unreadable, of demo_action "[]"]
       C6_unloadable_credentials_are_fatal [OF finder malformed, of demo_action "[]"]
  show ?thesis
    unfolding s by simp
qed


section \<open>Operation errors and the result of the run\<close>

lemma print_result:
  "fst (print env ret s) = Returns None \<longleftrightarrow> (\<exists>out. marshalIndent env ret = Inr out)"
  "\<exists>e. fst (print env ret s) = Returns e"
  "marshalIndent env ret = Inr out \<Longrightarrow> print env ret s = (Returns None, s\<lparr>stdout := stdout s @ [out]\<rparr>)"
  by (simp_all add: print_def split: sum.splits)

text \<open>C7. Without a finalizer, when every selected account exists and the operation
  returns on each of them, the executor always returns, and what it returns is the result
  of \<open>print\<close> on the results mapping: it returns nil exactly when the mapping can be
  marshalled, whichever operations returned errors, and then the process ends with status
  0 and the mapping has been printed. When the operation fails on every account, every
  entry is an error string, and with a marshaller that accepts every mapping of strings
  (as encoding/json does) the run prints the mapping and returns nil.\<close>

theorem C7_operation_errors_do_not_fail_the_run:
  fixes action :: "('w, 'p) action"
  assumes sel: "callFindAccounts env s (name s) = (Returns accts, s1)"
    and order: "range_ok env (entries accts)"
    and present: "\<forall>k\<in>dom (entries accts). index accts k \<noteq> None"
    and returns: "\<forall>k\<in>dom (entries accts). \<forall>w. \<exists>r. fst (action (index accts k) w) = Returns r"
  shows "\<exists>results w.
           accountsDo_loop action (rangeOrder env (entries accts)) accts Map.empty (world s1) =
             (Returns results, w) \<and>
           accountsDo env action [] s = print env (IMap results) (s1\<lparr>world := w\<rparr>) \<and>
           (\<exists>e. fst (accountsDo env action [] s) = Returns e) \<and>
           (fst (accountsDo env action [] s) = Returns None \<longleftrightarrow>
              (\<exists>out. marshalIndent env (IMap results) = Inr out)) \<and>
           (\<forall>out. marshalIndent env (IMap results) = Inr out \<longrightarrow>
              fst (accountsDo env action [] s) = Returns None \<and>
              exitStatus (fst (accountsDo env action [] s)) = 0 \<and>
              stdout (snd (accountsDo env action [] s)) = stdout s @ [out]) \<and>
           ((\<forall>k\<in>dom (entries accts). \<forall>w. \<exists>res err w1.
                action (index accts k) w = (Returns (res, Some err), w1)) \<longrightarrow>
              (\<forall>k\<in>dom results. \<exists>err.
                 results k = Some (IString (''error: '' @ error_message err))) \<and>
              ((\<forall>m. (\<forall>k\<in>dom m. \<exists>str. m k = Some (IString str)) \<longrightarrow>
                    (\<exists>out. marshalIndent env (IMap m) = Inr out)) \<longrightarrow>
                 fst (accountsDo env action [] s) = Returns None \<and>
                 exitStatus (fst (accountsDo env action [] s)) = 0 \<and>
                 (\<exists>out. marshalIndent env (IMap results) = Inr out \<and>
                        stdout (snd (accountsDo env action [] s)) = stdout s @ [out])))"
proof -
  let ?ks = "rangeOrder env (entries accts)"
  let ?w = "worldAfter action accts ?ks (world s1)"
  from selection_fan_out [OF sel order present returns]
  obtain results where
    run: "accountsDo_loop action ?ks accts Map.empty (world s1) = (Returns results, ?w)"
    and doms: "dom results = dom (entries accts)"
    and failing: "\<forall>i<length ?ks. \<forall>res err w1.
              action (index accts (?ks ! i)) (worldAfter action accts (take i ?ks) (world s1)) =
                (Returns (res, Some err), w1) \<longrightarrow>
              results (?ks ! i) = Some (IString (''error: '' @ error_message err))"
    and printed: "accountsDo env action [] s = print env (IMap results) (s1\<lparr>world := ?w\<rparr>)"
    by blast
  have out: "stdout s1 = stdout s"
    using callFindAccounts_frame(1) [of env s "name s"] sel by simp
  have returned: "\<exists>e. fst (accountsDo env action [] s) = Returns e"
    unfolding printed by (rule print_result(2))
  have nil_iff: "fst (accountsDo env action [] s) = Returns None \<longleftrightarrow>
                   (\<exists>out. marshalIndent env (IMap results) = Inr out)"
    unfolding printed by (rule print_result(1))
  have rendered: "\<forall>out. marshalIndent env (IMap results) = Inr out \<longrightarrow>
              fst (accountsDo env action [] s) = Returns None \<and>
              exitStatus (fst (accountsDo env action [] s)) = 0 \<and>
              stdout (snd (accountsDo env action [] s)) = stdout s @ [out]"
    unfolding printed by (simp add: print_result(3) out)
  have all_fail: "(\<forall>k\<in>dom results. \<exists>err.
                     results k = Some (IString (''error: '' @ error_message err))) \<and>
                  ((\<forall>m. (\<forall>k\<in>dom m. \<exists>str. m k = Some (IString str)) \<longrightarrow>
                        (\<exists>out. marshalIndent env (IMap m) = Inr out)) \<longrightarrow>
                     fst (accountsDo env action [] s) = Returns None \<and>
                     exitStatus (fst (accountsDo env action [] s)) = 0 \<and>
                     (\<exists>out. marshalIndent env (IMap results) = Inr out \<and>
                            stdout (snd (accountsDo env action [] s)) = stdout s @ [out]))"
    if fail: "\<forall>k\<in>dom (entries accts). \<forall>w. \<exists>res err w1.
                action (index accts k) w = (Returns (res, Some err), w1)"
  proof -
    have ks: "set ?ks = dom (entries accts)"
      using order by (simp add: range_ok_def)
    have strings: "\<forall>k\<in>dom results. \<exists>err.
                     results k = Some (IString (''error: '' @ error_message err))"
    proof
      fix k assume "k \<in> dom results"
      with doms ks have "k \<in> set ?ks" by simp
      then obtain i where i: "i < length ?ks" "?ks ! i = k"
        by (auto simp: in_set_conv_nth)
      from \<open>k \<in> dom results\<close> doms have "k \<in> dom (entries accts)" by simp
      with fail have "\<forall>w. \<exists>res err w1. action (index accts k) w = (Returns (res, Some err), w1)"
        by (rule bspec)
      then obtain res err w1 where
        "action (index accts k) (worldAfter action accts (take i ?ks) (world s1)) =
           (Returns (res, Some err), w1)"
        by blast
      then have "action (index accts (?ks ! i)) (worldAfter action accts (take i ?ks) (world s1)) =
           (Returns (res, Some err), w1)"
        by (simp only: i(2))
      from failing [rule_format, OF i(1) this] i(2)
      have "results k = Some (IString (''error: '' @ error_message err))"
        by simp
      then show "\<exists>err. results k = Some (IString (''error: '' @ error_message err))" ..
    qed
    have "fst (accountsDo env action [] s) = Returns None \<and>
          exitStatus (fst (accountsDo env action [] s)) = 0 \<and>
          (\<exists>out. marshalIndent env (IMap results) = Inr out \<and>
                 stdout (snd (accountsDo env action [] s)) = stdout s @ [out])"
      if json: "\<forall>m. (\<forall>k\<in>dom m. \<exists>str. m k = Some (IString str)) \<longrightarrow>
                  (\<exists>out. marshalIndent env (IMap m) = Inr out)"
    proof -
      have "\<forall>k\<in>dom results. \<exists>str. results k = Some (IString str)"
        using strings by blast
      with json obtain out where "marshalIndent env (IMap results) = Inr out"
        by blast
      with rendered show ?thesis by blast
    qed
    with strings show ?thesis by blast
  qed
  show ?thesis
    apply (rule exI [of _ results])
    apply (rule exI [of _ ?w])
    apply (intro conjI)
         apply (rule run)
        apply (rule printed)
       apply (rule returned)
      apply (rule nil_iff)
     apply (rule rendered)
    apply (rule impI)
    apply (erule all_fail)
    done
qed


text \<open>The accounts A and B with an operation that fails on both: the two error strings are
  printed and the run returns nil.\<close>

theorem C7_operation_errors_do_not_fail_the_run_witness:
  "fst (accountsDo (demo_env demo_files (Inr [keyA, keyB])) demo_failing []
          (demo_state [] FindAccountsImpl)) = Returns None \<and>
   exitStatus (fst (accountsDo (demo_env demo_files (Inr [keyA, keyB])) demo_failing []
                      (demo_state [] FindAccountsImpl))) = 0 \<and>
   stdout (snd (accountsDo (demo_env demo_files (Inr [keyA, keyB])) demo_failing []
                  (demo_state [] FindAccountsImpl))) = [''{A: error: down; B: error: down; }'']"
proof -
  let ?env = "demo_env demo_files (Inr [keyA, keyB])"
  let ?s = "demo_state [] FindAccountsImpl"
  let ?accts = "GoMap (initAccounts_loop False [keyA, keyB] Map.empty) :: accountMap"
  let ?s1 = "?s\<lparr>keyfile := ''keys.json'', accounts := ?accts\<rparr>"
  let ?results = "[''A'' \<mapsto> IString ''error: down'', ''B'' \<mapsto> IString ''error: down'']
                    :: string results"
  have sel: "callFindAccounts ?env ?s (name ?s) = (Returns ?accts, ?s1)"
    by (simp add: demo_defs run_defs)
  have order: "range_ok ?env (entries ?accts)"
    by (auto simp: demo_defs run_defs)
  have present: "\<forall>k\<in>dom (entries ?accts). index ?accts k \<noteq> None"
    by (auto simp: demo_defs run_defs split: if_splits)
  have returns: "\<forall>k\<in>dom (entries ?accts). \<forall>w. \<exists>r. fst (demo_failing (index ?accts k) w) = Returns r"
    by (simp add: demo_failing_def)
  have fail: "\<forall>k\<in>dom (entries ?accts). \<forall>w. \<exists>res err w1.
                demo_failing (index ?accts k) w = (Returns (res, Some err), w1)"
    by (simp add: demo_failing_def)
  have json: "\<forall>m. (\<forall>k\<in>dom m. \<exists>str. m k = Some (IString str)) \<longrightarrow>
                (\<exists>out. marshalIndent ?env (IMap m) = Inr out)"
    by (simp add: demo_env_def)
  have loop: "accountsDo_loop demo_failing (rangeOrder ?env (entries ?accts)) ?accts Map.empty
                (world ?s1) = (Returns ?results, [''call'', ''call''])"
    by (simp add: demo_defs run_defs)
  have shown: "marshalIndent ?env (IMap ?results) = Inr ''{A: error: down; B: error: down; }''"
    by (simp add: demo_env_def demo_show_def)
  have out: "stdout ?s = []"
    by (simp add: demo_state_def)
  from C7_operation_errors_do_not_fail_the_run [OF sel order present returns]
  obtain results w where
    run: "accountsDo_loop demo_failing (rangeOrder ?env (entries ?accts)) ?accts Map.empty
            (world ?s1) = (Returns results, w)"
    and rendered: "\<forall>out. marshalIndent ?env (IMap results) = Inr out \<longrightarrow>
              fst (accountsDo ?env demo_failing [] ?s) = Returns None \<and>
              exitStatus (fst (accountsDo ?env demo_failing [] ?s)) = 0 \<and>
              stdout (snd (accountsDo ?env demo_failing [] ?s)) = stdout ?s @ [out]"
    and all_fail: "(\<forall>k\<in>dom (entries ?accts). \<forall>w. \<exists>res err w1.
                demo_failing (index ?accts k) w = (Returns (res, Some err), w1)) \<longrightarrow>
              (\<forall>k\<in>dom results. \<exists>err.
                 results k = Some (IString (''error: '' @ error_message err))) \<and>
              ((\<forall>m. (\<forall>k\<in>dom m. \<exists>str. m k = Some (IString str)) \<longrightarrow>
                    (\<exists>out. marshalIndent ?env (IMap m) = Inr out)) \<longrightarrow>
                 fst (accountsDo ?env demo_failing [] ?s) = Returns None \<and>
                 exitStatus (fst (accountsDo ?env demo_failing [] ?s)) = 0 \<and>
                 (\<exists>out. marshalIndent ?env (IMap results) = Inr out \<and>
                        stdout (snd (accountsDo ?env demo_failing [] ?s)) = stdout ?s @ [out]))"
    by (elim exE conjE) (rule that)
  from run loop have results: "results = ?results"
    by simp
  note failed = all_fail [THEN mp, OF fail, THEN conjunct2, THEN mp, OF json]
  have "fst (accountsDo ?env demo_failing [] ?s) = Returns None"
    using failed by (rule conjunct1)
  moreover have "exitStatus (fst (accountsDo ?env demo_failing [] ?s)) = 0"
    using failed [THEN conjunct2] by (rule conjunct1)
  moreover from rendered [rule_format, of "''{A: error: down; B: error: down; }''"] shown
  have "stdout (snd (accountsDo ?env demo_failing [] ?s)) =
          [''{A: error: down; B: error: down; }'']"
    unfolding results out by simp
  ultimately show ?thesis
    by (intro conjI)
qed


section \<open>The selector after \<open>runOnce\<close>\<close>

lemma print_frame:
  "findAccounts (snd (print env ret s)) = findAccounts s"
  by (simp add: print_def split: sum.splits)

lemma accountsDo_findAccounts:
  "findAccounts (snd (accountsDo env action postAction s)) = findAccounts s"
proof -
  obtain r s1 where sel: "callFindAccounts env s (name s) = (r, s1)"
    by (cases "callFindAccounts env s (name s)")
  then have f: "findAccounts s1 = findAccounts s"
    using callFindAccounts_frame(3) [of env s "name s"] by simp
  show ?thesis
    by (simp add: accountsDo_def sel f print_frame
        split: outcome.splits prod.splits list.splits option.splits)
qed

lemma runOnce_findAccounts:
  "findAccounts (snd (runOnce env action postAction s)) = FindAccountsOnce"
  by (simp add: runOnce_def accountsDo_findAccounts)

lemma laterSteps_findAccounts:
  assumes "findAccounts s = FindAccountsOnce"
    and "\<forall>g. Other g \<in> set steps \<longrightarrow> (\<forall>t. findAccounts (g t) = findAccounts t)"
  shows "findAccounts (laterSteps steps s) = FindAccountsOnce"
  using assms
proof (induction steps arbitrary: s)
  case Nil
  then show ?case by simp
next
  case (Cons c steps)
  have rest: "\<forall>g. Other g \<in> set steps \<longrightarrow> (\<forall>t. findAccounts (g t) = findAccounts t)"
    using Cons.prems(2) by simp
  show ?case
  proof (cases c)
    case (Call once env action postAction)
    have "findAccounts (snd (if once then runOnce env action postAction s
                             else accountsDo env action postAction s)) = FindAccountsOnce"
      using Cons.prems(1) by (simp add: runOnce_findAccounts accountsDo_findAccounts)
    then show ?thesis
      unfolding Call by (simp add: Cons.IH rest)
  next
    case (Other g)
    with Cons.prems have "findAccounts (g s) = FindAccountsOnce"
      by simp
    then show ?thesis
      unfolding Other by (simp add: Cons.IH rest)
  qed
qed

lemma initAccounts_name:
  "initAccounts env (s\<lparr>name := n\<rparr>) =
     (case initAccounts env s of (r, s1) \<Rightarrow> (r, s1\<lparr>name := n\<rparr>))"
  by (simp add: initAccounts_cases split: sum.splits)

lemma findAccountsOnce_name:
  "findAccountsOnce env (s\<lparr>name := n\<rparr>) nm =
     (case findAccountsOnce env s nm' of (r, s1) \<Rightarrow> (r, s1\<lparr>name := n\<rparr>))"
  by (simp add: findAccountsOnce_def initAccounts_name
      split: prod.splits outcome.splits list.splits)

lemma print_name:
  "print env ret (s\<lparr>name := n, world := w\<rparr>) =
     (case print env ret (s\<lparr>world := w\<rparr>) of (r, s1) \<Rightarrow> (r, s1\<lparr>name := n\<rparr>))"
  by (simp add: print_def split: sum.splits)

lemma accountsDo_once_name:
  assumes "findAccounts s = FindAccountsOnce"
  shows "accountsDo env action postAction (s\<lparr>name := n\<rparr>) =
           (case accountsDo env action postAction s of (r, s') \<Rightarrow> (r, s'\<lparr>name := n\<rparr>))"
proof -
  obtain r s1 where sel: "findAccountsOnce env s (name s) = (r, s1)"
    by (cases "findAccountsOnce env s (name s)")
  have sel': "findAccountsOnce env (s\<lparr>name := n\<rparr>) n = (r, s1\<lparr>name := n\<rparr>)"
    using findAccountsOnce_name [where env = env and s = s and n = n and nm = n and nm' = "name s"]
      sel by simp
  show ?thesis
    using assms
    by (simp add: accountsDo_def callFindAccounts_def sel sel' print_name
        split: outcome.splits prod.splits list.splits option.splits)
qed

lemma accountsDo_once_resolves:
  assumes "findAccounts s = FindAccountsOnce"
  shows "accountsDo env action postAction s =
           (case findAccountsOnce env s nm of
              (Fatal m, s1) \<Rightarrow> (Fatal m, s1)
            | (Panics m, s1) \<Rightarrow> (Panics m, s1)
            | (Returns accts, s1) \<Rightarrow>
                (case accountsDo_loop action (rangeOrder env (entries accts)) accts Map.empty
                        (world s1) of
                   (Fatal m, w) \<Rightarrow> (Fatal m, s1\<lparr>world := w\<rparr>)
                 | (Panics m, w) \<Rightarrow> (Panics m, s1\<lparr>world := w\<rparr>)
                 | (Returns results, w) \<Rightarrow>
                     (case postAction of
                        pa # rest \<Rightarrow>
                          (case pa results w of
                             (Fatal m, w') \<Rightarrow> (Fatal m, s1\<lparr>world := w'\<rparr>)
                           | (Panics m, w') \<Rightarrow> (Panics m, s1\<lparr>world := w'\<rparr>)
                           | (Returns (ret, Some err), w') \<Rightarrow>
                               (Returns (Some (Trace err)), s1\<lparr>world := w'\<rparr>)
                           | (Returns (ret, None), w') \<Rightarrow> print env ret (s1\<lparr>world := w'\<rparr>))
                      | [] \<Rightarrow> print env (IMap results) (s1\<lparr>world := w\<rparr>))))"
proof -
  have "findAccountsOnce env s nm = findAccountsOnce env s (name s)"
    by (simp add: findAccountsOnce_def)
  moreover have "callFindAccounts env s (name s) = findAccountsOnce env s (name s)"
    using assms by (simp add: callFindAccounts_def)
  ultimately show ?thesis
    unfolding accountsDo_def by (simp only:)
qed

text \<open>C9. \<open>init\<close> installs \<open>findAccountsImpl\<close>. \<open>runOnce\<close> assigns its closure to
  \<open>findAccounts\<close>, and neither the executor nor \<open>runOnce\<close> assigns anything else to it: after
  a call of \<open>runOnce\<close> and whatever the process runs next, as long as no other code assigns
  the variable, it still holds the closure. A later \<open>accountsDo\<close> then resolves its accounts
  through the closure, which does not look at the name it is given: the loop, the finalizer
  and the printing run on what the closure returns for any name, so the call does what
  \<open>runOnce\<close> does and gives the same result whatever the name setting is.\<close>

theorem C9_runOnce_replaces_the_selector_for_good:
  fixes steps :: "('w, 'p) step list"
  assumes others: "\<forall>g. Other g \<in> set steps \<longrightarrow> (\<forall>t. findAccounts (g t) = findAccounts t)"
  shows
  "findAccounts (init s0) = FindAccountsImpl \<and>
   findAccounts (snd (runOnce env action postAction s)) = FindAccountsOnce \<and>
   findAccounts (laterSteps steps (snd (runOnce env action postAction s))) = FindAccountsOnce \<and>
   callFindAccounts env' (laterSteps steps (snd (runOnce env action postAction s))) nm =
     findAccountsOnce env' (laterSteps steps (snd (runOnce env action postAction s))) nm \<and>
   findAccountsOnce env' (laterSteps steps (snd (runOnce env action postAction s))) nm =
     findAccountsOnce env' (laterSteps steps (snd (runOnce env action postAction s))) nm' \<and>
   accountsDo env' action' postAction' (laterSteps steps (snd (runOnce env action postAction s))) =
     (case findAccountsOnce env' (laterSteps steps (snd (runOnce env action postAction s))) nm of
        (Fatal m, s1) \<Rightarrow> (Fatal m, s1)
      | (Panics m, s1) \<Rightarrow> (Panics m, s1)
      | (Returns accts, s1) \<Rightarrow>
          (case accountsDo_loop action' (rangeOrder env' (entries accts)) accts Map.empty
                  (world s1) of
             (Fatal m, w) \<Rightarrow> (Fatal m, s1\<lparr>world := w\<rparr>)
           | (Panics m, w) \<Rightarrow> (Panics m, s1\<lparr>world := w\<rparr>)
           | (Returns results, w) \<Rightarrow>
               (case postAction' of
                  pa # rest \<Rightarrow>
                    (case pa results w of
                       (Fatal m, w') \<Rightarrow> (Fatal m, s1\<lparr>world := w'\<rparr>)
                     | (Panics m, w') \<Rightarrow> (Panics m, s1\<lparr>world := w'\<rparr>)
                     | (Returns (ret, Some err), w') \<Rightarrow>
                         (Returns (Some (Trace err)), s1\<lparr>world := w'\<rparr>)
                     | (Returns (ret, None), w') \<Rightarrow> print env' ret (s1\<lparr>world := w'\<rparr>))
                | [] \<Rightarrow> print env' (IMap results) (s1\<lparr>world := w\<rparr>)))) \<and>
   accountsDo env' action' postAction' (laterSteps steps (snd (runOnce env action postAction s))) =
     runOnce env' action' postAction' (laterSteps steps (snd (runOnce env action postAction s))) \<and>
   accountsDo env' action' postAction'
       ((laterSteps steps (snd (runOnce env action postAction s)))\<lparr>name := n\<rparr>) =
     (case accountsDo env' action' postAction'
             (laterSteps steps (snd (runOnce env action postAction s))) of
        (r, s') \<Rightarrow> (r, s'\<lparr>name := n\<rparr>))"
proof -
  let ?s = "laterSteps steps (snd (runOnce env action postAction s))"
  have once: "findAccounts ?s = FindAccountsOnce"
    using runOnce_findAccounts others by (rule laterSteps_findAccounts)
  have same: "?s\<lparr>findAccounts := FindAccountsOnce\<rparr> = ?s"
    using once by (metis state.surjective state.update_convs(5) state.select_convs(5))
  have "findAccounts (init s0) = FindAccountsImpl"
    by (simp add: init_def)
  moreover note runOnce_findAccounts [of env action postAction s] once
  moreover have "callFindAccounts env' ?s nm = findAccountsOnce env' ?s nm"
    using once by (simp add: callFindAccounts_def)
  moreover have "findAccountsOnce env' ?s nm = findAccountsOnce env' ?s nm'"
    by (simp add: findAccountsOnce_def)
  moreover note accountsDo_once_resolves [OF once, of env' action' postAction' nm]
  moreover have "accountsDo env' action' postAction' ?s = runOnce env' action' postAction' ?s"
  proof -
    have "runOnce env' action' postAction' ?s =
            accountsDo env' action' postAction' (?s\<lparr>findAccounts := FindAccountsOnce\<rparr>)"
      by (rule runOnce_def)
    then show ?thesis
      by (simp only: same)
  qed
  moreover note accountsDo_once_name [OF once, of env' action' postAction' n]
  ultimately show ?thesis
    by (intro conjI)
qed

text \<open>The accounts A and B. The selector of \<open>init\<close> with the name B picks B. After a call
  of \<open>runOnce\<close>, other code that sets the name to B and a further call of the executor, the
  variable holds the closure, and the next \<open>accountsDo\<close> runs the operation on the account
  that the runtime yields first, A, although the name is B.\<close>

theorem C9_runOnce_replaces_the_selector_for_good_witness:
  "world (snd (accountsDo (demo_env demo_files (Inr [keyA, keyB])) demo_action []
                 (init (demo_state ''B'' NoFinder)))) = [''B''] \<and>
   findAccounts
     (laterSteps [Other (\<lambda>t. t\<lparr>name := ''B''\<rparr>),
                  Call False (demo_env demo_files (Inr [keyA, keyB])) demo_action []]
        (snd (runOnce (demo_env demo_files (Inr [keyA, keyB])) demo_action []
                (init (demo_state [] NoFinder))))) = FindAccountsOnce \<and>
   name
     (laterSteps [Other (\<lambda>t. t\<lparr>name := ''B''\<rparr>),
                  Call False (demo_env demo_files (Inr [keyA, keyB])) demo_action []]
        (snd (runOnce (demo_env demo_files (Inr [keyA, keyB])) demo_action []
                (init (demo_state [] NoFinder))))) = ''B'' \<and>
   accountsDo (demo_env demo_files (Inr [keyA, keyB])) demo_action []
     (laterSteps [Other (\<lambda>t. t\<lparr>name := ''B''\<rparr>),
                  Call False (demo_env demo_files (Inr [keyA, keyB])) demo_action []]
        (snd (runOnce (demo_env demo_files (Inr [keyA, keyB])) demo_action []
                (init (demo_state [] NoFinder))))) =
     (Returns None,
      (demo_state ''B'' FindAccountsOnce)
        \<lparr>keyfile := ''keys.json'',
         accounts := GoMap (initAccounts_loop False [keyA, keyB] Map.empty),
         stdout := [''{A: error: auth; }'', ''{A: error: auth; }'', ''{A: error: auth; }''],
         world := [''A'', ''A'', ''A'']\<rparr>)"
proof -
  let ?env = "demo_env demo_files (Inr [keyA, keyB])"
  let ?steps = "[Other (\<lambda>t. t\<lparr>name := ''B''\<rparr>), Call False ?env demo_action []]
                  :: (string list, string) step list"
  let ?s = "init (demo_state [] NoFinder)"
  let ?s' = "laterSteps ?steps (snd (runOnce ?env demo_action [] ?s))"
  have others: "\<forall>g. Other g \<in> set ?steps \<longrightarrow> (\<forall>t. findAccounts (g t) = findAccounts t)"
    by simp
  note c9 = C9_runOnce_replaces_the_selector_for_good
    [OF others, where env = ?env and env' = ?env and action = demo_action
       and action' = demo_action and postAction = "[]" and postAction' = "[]"
       and s = ?s and nm = "''B''"]
  have before: "world (snd (accountsDo ?env demo_action [] (init (demo_state ''B'' NoFinder)))) =
                  [''B'']"
    by (simp add: init_def demo_defs run_defs newAccount_Name)
  have installed: "findAccounts ?s' = FindAccountsOnce"
    using c9 [THEN conjunct2, THEN conjunct2, THEN conjunct1] .
  have state: "?s' = (demo_state ''B'' FindAccountsOnce)
                  \<lparr>keyfile := ''keys.json'',
                   accounts := GoMap (initAccounts_loop False [keyA, keyB] Map.empty),
                   stdout := [''{A: error: auth; }'', ''{A: error: auth; }''],
                   world := [''A'', ''A'']\<rparr>"
    by (simp add: init_def demo_defs run_defs newAccount_Name)
  have named: "name ?s' = ''B''"
    unfolding state by (simp add: demo_state_def)
  note resolved = c9 [THEN conjunct2, THEN conjunct2, THEN conjunct2, THEN conjunct2,
      THEN conjunct2, THEN conjunct1]
  have later: "accountsDo ?env demo_action [] ?s' =
     (Returns None,
      (demo_state ''B'' FindAccountsOnce)
        \<lparr>keyfile := ''keys.json'',
         accounts := GoMap (initAccounts_loop False [keyA, keyB] Map.empty),
         stdout := [''{A: error: auth; }'', ''{A: error: auth; }'', ''{A: error: auth; }''],
         world := [''A'', ''A'', ''A'']\<rparr>)"
    unfolding resolved unfolding state
    by (simp add: demo_defs loadKeys_def initAccounts_def findAccountsOnce_def index_def
        derefName_def print_def newAccount_Name)
  from before installed named later show ?thesis
    by (intro conjI)
qed

section \<open>An empty credential file\<close>

text \<open>C10. When the credential file holds no record and the name setting is empty,
  \<open>findAccountsImpl\<close> returns the empty registry and the closure of \<open>runOnce\<close> returns
  the nil map; in both cases the executor without a finalizer runs the operation on nothing
  (the world is as before), prints the empty results mapping and returns nil, so the process
  ends with status 0. The empty mapping is taken to be one that the marshaller accepts.\<close>

theorem C10_no_credentials_prints_empty_results:
  fixes action :: "('w, 'p) action"
  assumes load: "loadKeys env (if keyfile s = [] then ''keys.json'' else keyfile s) = Inr []"
    and nm: "name s = []"
    and order: "range_ok env Map.empty"
    and render: "marshalIndent env (IMap Map.empty) = Inr out"
  shows "(findAccounts s = FindAccountsImpl \<longrightarrow>
            callFindAccounts env s (name s) =
              (Returns (GoMap Map.empty),
               s\<lparr>keyfile := (if keyfile s = [] then ''keys.json'' else keyfile s),
                 accounts := GoMap Map.empty\<rparr>)) \<and>
         (findAccounts s = FindAccountsOnce \<longrightarrow>
            callFindAccounts env s (name s) =
              (Returns NilMap,
               s\<lparr>keyfile := (if keyfile s = [] then ''keys.json'' else keyfile s),
                 accounts := GoMap Map.empty\<rparr>)) \<and>
         (findAccounts s \<noteq> NoFinder \<longrightarrow>
            accountsDo env action [] s =
              (Returns None,
               s\<lparr>keyfile := (if keyfile s = [] then ''keys.json'' else keyfile s),
                 accounts := GoMap Map.empty, stdout := stdout s @ [out]\<rparr>) \<and>
            exitStatus (fst (accountsDo env action [] s)) = 0 \<and>
            world (snd (accountsDo env action [] s)) = world s) \<and>
         runOnce env action [] s =
           (Returns None,
            s\<lparr>keyfile := (if keyfile s = [] then ''keys.json'' else keyfile s),
              accounts := GoMap Map.empty, findAccounts := FindAccountsOnce,
              stdout := stdout s @ [out]\<rparr>)"
proof -
  let ?p = "if keyfile s = [] then ''keys.json'' else keyfile s"
  have none: "rangeOrder env Map.empty = []"
    using order by (simp add: range_ok_def)
  have init: "\<And>f. initAccounts env (s\<lparr>findAccounts := f\<rparr>) =
                  (Returns (), s\<lparr>findAccounts := f, keyfile := ?p, accounts := GoMap Map.empty\<rparr>)"
    using load by (cases "keyfile s = []") (simp_all add: initAccounts_cases)
  have impl: "callFindAccounts env (s\<lparr>findAccounts := FindAccountsImpl\<rparr>) [] =
                (Returns (GoMap Map.empty),
                 s\<lparr>findAccounts := FindAccountsImpl, keyfile := ?p, accounts := GoMap Map.empty\<rparr>)"
    by (simp add: callFindAccounts_def findAccountsImpl_def init)
  have once: "callFindAccounts env (s\<lparr>findAccounts := FindAccountsOnce\<rparr>) [] =
                (Returns NilMap,
                 s\<lparr>findAccounts := FindAccountsOnce, keyfile := ?p, accounts := GoMap Map.empty\<rparr>)"
    by (simp add: callFindAccounts_def findAccountsOnce_def init none)
  have do_impl: "accountsDo env action [] (s\<lparr>findAccounts := FindAccountsImpl\<rparr>) =
                   (Returns None,
                    s\<lparr>findAccounts := FindAccountsImpl, keyfile := ?p,
                      accounts := GoMap Map.empty, stdout := stdout s @ [out]\<rparr>)"
    by (simp add: accountsDo_def nm impl none print_def render)
  have do_once: "accountsDo env action [] (s\<lparr>findAccounts := FindAccountsOnce\<rparr>) =
                   (Returns None,
                    s\<lparr>findAccounts := FindAccountsOnce, keyfile := ?p,
                      accounts := GoMap Map.empty, stdout := stdout s @ [out]\<rparr>)"
    by (simp add: accountsDo_def nm once none print_def render)
  have same: "\<And>f. findAccounts s = f \<Longrightarrow> s\<lparr>findAccounts := f\<rparr> = s"
    by (metis state.surjective state.update_convs(5) state.select_convs(5))
  have a: "callFindAccounts env s (name s) =
             (Returns (GoMap Map.empty), s\<lparr>keyfile := ?p, accounts := GoMap Map.empty\<rparr>)"
    if "findAccounts s = FindAccountsImpl"
    using impl same [OF that] nm by simp
  have b: "callFindAccounts env s (name s) =
             (Returns NilMap, s\<lparr>keyfile := ?p, accounts := GoMap Map.empty\<rparr>)"
    if "findAccounts s = FindAccountsOnce"
    using once same [OF that] nm by simp
  have c: "accountsDo env action [] s =
             (Returns None,
              s\<lparr>keyfile := ?p, accounts := GoMap Map.empty, stdout := stdout s @ [out]\<rparr>)"
    if "findAccounts s \<noteq> NoFinder"
  proof (cases "findAccounts s")
    case NoFinder
    with that show ?thesis by simp
  next
    case FindAccountsImpl
    from do_impl same [OF this] show ?thesis by simp
  next
    case FindAccountsOnce
    from do_once same [OF this] show ?thesis by simp
  qed
  have d: "runOnce env action [] s =
             (Returns None,
              s\<lparr>keyfile := ?p, accounts := GoMap Map.empty, findAccounts := FindAccountsOnce,
                stdout := stdout s @ [out]\<rparr>)"
    using do_once by (simp add: runOnce_def)
  show ?thesis
    using a b c d by simp
qed

text \<open>An empty file, with either selector.\<close>

theorem C10_no_credentials_prints_empty_results_witness:
  "accountsDo (demo_env demo_files (Inr [])) demo_action [] (demo_state [] FindAccountsImpl) =
     (Returns None,
      (demo_state [] FindAccountsImpl)
        \<lparr>keyfile := ''keys.json'', accounts := GoMap Map.empty, stdout := [''{}'']\<rparr>) \<and>
   callFindAccounts (demo_env demo_files (Inr [])) (demo_state [] FindAccountsOnce) [] =
     (Returns NilMap,
      (demo_state [] FindAccountsOnce)\<lparr>keyfile := ''keys.json'', accounts := GoMap Map.empty\<rparr>) \<and>
   accountsDo (demo_env demo_files (Inr [])) demo_action [] (demo_state [] FindAccountsOnce) =
     (Returns None,
      (demo_state [] FindAccountsOnce)
        \<lparr>keyfile := ''keys.json'', accounts := GoMap Map.empty, stdout := [''{}'']\<rparr>)"
proof -
  let ?env = "demo_env demo_files (Inr []) :: string env"
  have load: "\<And>f. loadKeys ?env (if keyfile (demo_state [] f) = [] then ''keys.json''
                                   else keyfile (demo_state [] f)) = Inr []"
    by (simp add: demo_defs loadKeys_def)
  have nm: "\<And>f. name (demo_state [] f) = []"
    by (simp add: demo_state_def)
  have order: "range_ok ?env Map.empty"
    by (simp add: range_ok_def demo_env_def)
  have render: "marshalIndent ?env (IMap Map.empty) = Inr ''{}''"
    by (simp add: demo_env_def demo_show_def)
  have f: "findAccounts (demo_state [] FindAccountsImpl) \<noteq> NoFinder"
    "findAccounts (demo_state [] FindAccountsOnce) \<noteq> NoFinder"
    "findAccounts (demo_state [] FindAccountsOnce) = FindAccountsOnce"
    by (simp_all add: demo_state_def)
  note impl = C10_no_credentials_prints_empty_results
    [OF load nm order render, of FindAccountsImpl demo_action]
  note once = C10_no_credentials_prints_empty_results
    [OF load nm order render, of FindAccountsOnce demo_action]
  have "accountsDo ?env demo_action [] (demo_state [] FindAccountsImpl) =
          (Returns None,
           (demo_state [] FindAccountsImpl)
             \<lparr>keyfile := ''keys.json'', accounts := GoMap Map.empty, stdout := [''{}'']\<rparr>)"
    using impl [THEN conjunct2, THEN conjunct2, THEN conjunct1, THEN mp, OF f(1), THEN conjunct1]
    by (simp add: demo_state_def)
  moreover have "callFindAccounts ?env (demo_state [] FindAccountsOnce) [] =
          (Returns NilMap,
           (demo_state [] FindAccountsOnce)\<lparr>keyfile := ''keys.json'', accounts := GoMap Map.empty\<rparr>)"
    using once [THEN conjunct2, THEN conjunct1, THEN mp, OF f(3)]
    by (simp add: demo_state_def)
  moreover have "accountsDo ?env demo_action [] (demo_state [] FindAccountsOnce) =
          (Returns None,
           (demo_state [] FindAccountsOnce)
             \<lparr>keyfile := ''keys.json'', accounts := GoMap Map.empty, stdout := [''{}'']\<rparr>)"
    using once [THEN conjunct2, THEN conjunct2, THEN conjunct1, THEN mp, OF f(2), THEN conjunct1]
    by (simp add: demo_state_def)
  ultimately show ?thesis
    by (intro conjI)
qed

end
